theory Spec2Isabelle
  imports Complex_Main
begin

section \<open>Conventions\<close>

text \<open>
  Python floats are modelled as real numbers: IEEE rounding and the decimal rendering of a
  float inside an FFmpeg argument (\<open>{cum:.3f}\<close>, \<open>{x:.8f}\<close>) are not modelled, a number
  stands for its exact value. File paths are strings. What the services hand to the
  external \<open>ffmpeg\<close> process is modelled as structured data instead of the argument text.
\<close>

section \<open>Video assembly service: \<open>services/video_service.py\<close>\<close>

text \<open>
  \<open>RuntimeConfig\<close> comes from \<open>config/loader.py\<close>; the fields read by the functions
  below are taken as parameters.
\<close>

record RuntimeConfig =
  transition_duration :: real
  transition_type :: string
  video_codec :: string
  ffmpeg_preset :: string
  quality_checks_enabled :: bool
  max_sync_drift_sec :: real

subsection \<open>\<open>VideoAssemblyService._xfade\<close>\<close>

text \<open>
  The stream labels of the filter graph: \<open>[0:v]\<close>, \<open>[xf{i}]\<close> and \<open>[vout]\<close>.
\<close>

datatype stream_label = In0 | Xf nat | Vout

text \<open>
  One entry of \<open>parts\<close>:
  \<open>{prev}[{i}:v]xfade=transition={tt}:duration={td}:offset={cum}{nxt}\<close>.
\<close>

record xfade_part =
  part_prev :: stream_label
  part_input :: nat
  part_transition :: string
  part_duration :: real
  part_offset :: real
  part_nxt :: stream_label

text \<open>
  The loop \<open>for i in range(1, len(clips))\<close> with its three loop variables \<open>parts\<close>
  (the result), \<open>prev\<close> and \<open>cum\<close>. A clip is a pair of its path and its duration;
  \<open>clips ! (i - 1)\<close> is in range for every \<open>i\<close> the loop visits.
\<close>

fun xfade_loop ::
  "RuntimeConfig \<Rightarrow> (string \<times> real) list \<Rightarrow> nat list \<Rightarrow> stream_label \<Rightarrow> real \<Rightarrow> xfade_part list"
where
  "xfade_loop cfg clips [] prev cum = []"
| "xfade_loop cfg clips (i # rest) prev cum =
     (let cum' = cum + (snd (clips ! (i - 1)) - transition_duration cfg);
          nxt = (if i < length clips - 1 then Xf i else Vout)
      in \<lparr> part_prev = prev, part_input = i, part_transition = transition_type cfg,
           part_duration = transition_duration cfg, part_offset = cum', part_nxt = nxt \<rparr>
         # xfade_loop cfg clips rest (Xf i) cum')"

datatype xfade_action =
    XfadeCached
  | XfadeCopy string
  | XfadeFilter "string list" "xfade_part list"

text \<open>
  \<open>out_exists\<close> is \<open>out.exists()\<close>. The result is what the function does: nothing (the
  cached file is returned), a copy of the only clip, or one \<open>ffmpeg\<close> run with the inputs
  and the filter graph.
\<close>

definition xfade :: "RuntimeConfig \<Rightarrow> bool \<Rightarrow> (string \<times> real) list \<Rightarrow> xfade_action" where
  "xfade cfg out_exists clips =
     (if out_exists then XfadeCached
      else if length clips = 1 then XfadeCopy (fst (clips ! 0))
      else XfadeFilter (map fst clips) (xfade_loop cfg clips [1 ..< length clips] In0 0))"

text \<open>The offsets of the transitions, in the order of the filter graph.\<close>

definition xfade_offsets :: "RuntimeConfig \<Rightarrow> (string \<times> real) list \<Rightarrow> real list" where
  "xfade_offsets cfg clips = map part_offset (xfade_loop cfg clips [1 ..< length clips] In0 0)"

subsection \<open>\<open>VideoAssemblyService._trim_pad\<close>\<close>

text \<open>
  \<open>actual\<close> is the duration \<open>_duration(src)\<close> probes. The three branches: copy the
  source, \<open>ffmpeg -t target -c copy\<close>, and \<open>tpad=stop_mode=clone:stop_duration=target-actual\<close>.
\<close>

datatype trim_pad_action =
    CopyUnchanged
  | HardTrim real
  | ClonePad real

definition trim_pad :: "real \<Rightarrow> real \<Rightarrow> trim_pad_action" where
  "trim_pad actual target =
     (if \<bar>actual - target\<bar> < 0.1 then CopyUnchanged
      else if actual > target then HardTrim target
      else ClonePad (target - actual))"

subsection \<open>The drift check at the end of \<open>VideoAssemblyService.assemble\<close>\<close>

datatype video_log =
    LogDone real real
  | WarnSyncDrift real real

text \<open>
  The last lines of \<open>assemble\<close>: \<open>actual\<close> is the probed duration of the muxed file,
  \<open>total_dur\<close> the sum of the narration chunks' durations.
\<close>

definition assemble_drift_log :: "RuntimeConfig \<Rightarrow> real \<Rightarrow> real \<Rightarrow> video_log list" where
  "assemble_drift_log cfg actual total_dur =
     (let drift = \<bar>actual - total_dur\<bar>
      in LogDone actual drift
         # (if quality_checks_enabled cfg \<and> drift > max_sync_drift_sec cfg
            then [WarnSyncDrift drift (max_sync_drift_sec cfg)] else []))"

fun is_drift_warning :: "video_log \<Rightarrow> bool" where
  "is_drift_warning (WarnSyncDrift d t) = True"
| "is_drift_warning (LogDone a d) = False"

definition drift_warning_logged :: "RuntimeConfig \<Rightarrow> real \<Rightarrow> real \<Rightarrow> bool" where
  "drift_warning_logged cfg actual total_dur =
     list_ex is_drift_warning (assemble_drift_log cfg actual total_dur)"

section \<open>A/V sync service: \<open>services/sync_service.py\<close>\<close>

subsection \<open>The data model of \<open>utils/models.py\<close>\<close>

record AudioChunk =
  section_id :: string
  chunk_text :: string
  audio_path :: string
  duration_seconds :: real
  start_time :: real

record VisualAsset =
  section_id :: string
  asset_type :: string
  file_path :: string
  url :: "string option"
  description :: string
  display_start :: real
  display_end :: real

text \<open>
  \<open>assign_timings\<close> writes \<open>display_start\<close> and \<open>display_end\<close> into the asset objects
  it was given, and the list it returns holds the same objects. An asset object is a
  reference into a heap of \<open>VisualAsset\<close> values, so that the writes are visible through
  every list that holds the object, also in the caller's input list.
\<close>

type_synonym asset_ref = nat

type_synonym asset_heap = "asset_ref \<Rightarrow> VisualAsset"

datatype sync_log =
    WarnNoAudioTiming string
  | InfoAssigned nat

record sync_state =
  heap :: asset_heap
  assigned :: "asset_ref list"
  logged :: "sync_log list"

subsection \<open>\<open>SyncService.assign_timings\<close>\<close>

text \<open>
  \<open>timing_map\<close>: one pass over the chunks, a later chunk of the same section overwrites
  an earlier one.
\<close>

definition build_timing_map :: "AudioChunk list \<Rightarrow> (string \<rightharpoonup> real \<times> real)" where
  "build_timing_map audio_chunks =
     fold (\<lambda>chunk timing_map.
             timing_map(AudioChunk.section_id chunk \<mapsto>
               (start_time chunk, start_time chunk + duration_seconds chunk)))
          audio_chunks Map.empty"

text \<open>
  \<open>by_section.setdefault(asset.section_id, []).append(asset)\<close> on an insertion-ordered
  dictionary: the dictionary is an association list in the order in which its keys were
  first inserted.
\<close>

fun setdefault_append ::
  "string \<Rightarrow> asset_ref \<Rightarrow> (string \<times> asset_ref list) list \<Rightarrow> (string \<times> asset_ref list) list"
where
  "setdefault_append k a [] = [(k, [a])]"
| "setdefault_append k a ((k', as) # rest) =
     (if k' = k then (k', as @ [a]) # rest else (k', as) # setdefault_append k a rest)"

definition group_by_section ::
  "asset_heap \<Rightarrow> asset_ref list \<Rightarrow> (string \<times> asset_ref list) list"
where
  "group_by_section h visual_assets =
     fold (\<lambda>asset by_section. setdefault_append (section_id (h asset)) asset by_section)
          visual_assets []"

text \<open>
  The first loop over \<open>title_cards\<close>: both fields are written and the object is appended
  to \<open>assigned\<close>.
\<close>

fun title_card_loop :: "real \<Rightarrow> real \<Rightarrow> asset_ref list \<Rightarrow> sync_state \<Rightarrow> sync_state" where
  "title_card_loop section_start title_duration [] st = st"
| "title_card_loop section_start title_duration (tc # rest) st =
     title_card_loop section_start title_duration rest
       (st\<lparr> heap := (heap st)(tc := (heap st tc)\<lparr> display_start := section_start,
                                                  display_end := section_start + title_duration \<rparr>),
            assigned := assigned st @ [tc] \<rparr>)"

text \<open>The loop \<open>for i, ss in enumerate(screenshots)\<close>.\<close>

fun screenshot_loop ::
  "real \<Rightarrow> real \<Rightarrow> (nat \<times> asset_ref) list \<Rightarrow> sync_state \<Rightarrow> sync_state"
where
  "screenshot_loop content_start per_screenshot [] st = st"
| "screenshot_loop content_start per_screenshot ((i, ss) # rest) st =
     screenshot_loop content_start per_screenshot rest
       (st\<lparr> heap := (heap st)(ss := (heap st ss)
                 \<lparr> display_start := content_start + real i * per_screenshot,
                   display_end := content_start + (real i + 1) * per_screenshot \<rparr>),
            assigned := assigned st @ [ss] \<rparr>)"

text \<open>The second loop over \<open>title_cards\<close>, in the branch without screenshots.\<close>

fun extend_title_loop :: "real \<Rightarrow> asset_ref list \<Rightarrow> sync_state \<Rightarrow> sync_state" where
  "extend_title_loop section_end [] st = st"
| "extend_title_loop section_end (tc # rest) st =
     extend_title_loop section_end rest
       (st\<lparr> heap := (heap st)(tc := (heap st tc)\<lparr> display_end := section_end \<rparr>) \<rparr>)"

text \<open>The body of the loop \<open>for section_id, assets in by_section.items()\<close>.\<close>

definition process_section ::
  "(string \<rightharpoonup> real \<times> real) \<Rightarrow> string \<times> asset_ref list \<Rightarrow> sync_state \<Rightarrow> sync_state"
where
  "process_section timing_map entry st =
     (case entry of (sid, assets) \<Rightarrow>
        (case timing_map sid of
           None \<Rightarrow> st\<lparr> logged := logged st @ [WarnNoAudioTiming sid] \<rparr>
         | Some (section_start, section_end) \<Rightarrow>
             (let section_duration = section_end - section_start;
                  title_cards = filter (\<lambda>a. asset_type (heap st a) = ''title_card'') assets;
                  screenshots = filter (\<lambda>a. asset_type (heap st a) = ''screenshot'') assets;
                  title_duration = min 3 (section_duration * 0.2);
                  st1 = title_card_loop section_start title_duration title_cards st
              in if screenshots \<noteq> [] then
                   (let content_start = section_start + title_duration;
                        content_end = section_end;
                        content_duration = content_end - content_start;
                        per_screenshot = content_duration / real (length screenshots)
                    in screenshot_loop content_start per_screenshot
                         (enumerate 0 screenshots) st1)
                 else extend_title_loop section_end title_cards st1)))"

text \<open>
  The whole function. The \<open>script\<close> argument is not read by the source. The result state
  holds the returned list (\<open>assigned\<close>, after the stable sort by \<open>display_start\<close>), the
  heap with every write, and the log.
\<close>

definition assign_timings ::
  "AudioChunk list \<Rightarrow> asset_ref list \<Rightarrow> asset_heap \<Rightarrow> sync_state"
where
  "assign_timings audio_chunks visual_assets h =
     (let timing_map = build_timing_map audio_chunks;
          by_section = group_by_section h visual_assets;
          st = fold (process_section timing_map) by_section
                 \<lparr> heap = h, assigned = [], logged = [] \<rparr>;
          sorted_assets = sort_key (\<lambda>a. display_start (heap st a)) (assigned st)
      in st\<lparr> assigned := sorted_assets,
             logged := logged st @ [InfoAssigned (length sorted_assets)] \<rparr>)"

text \<open>The display window of an object in a heap.\<close>

definition window :: "asset_heap \<Rightarrow> asset_ref \<Rightarrow> real \<times> real" where
  "window h a = (display_start (h a), display_end (h a))"

text \<open>
  The objects of one section in the returned list, in the order of the list.
\<close>

definition section_assets :: "sync_state \<Rightarrow> string \<Rightarrow> asset_ref list" where
  "section_assets st sid = filter (\<lambda>a. section_id (heap st a) = sid) (assigned st)"

definition section_windows :: "sync_state \<Rightarrow> string \<Rightarrow> (real \<times> real) list" where
  "section_windows st sid = map (window (heap st)) (section_assets st sid)"

subsection \<open>Properties of display windows\<close>

text \<open>
  A window \<open>(start, end)\<close> stands for the half-open interval \<open>{start ..< end}\<close>. A list of
  windows is sorted by its start times, pairwise non-overlapping when the intervals at two
  different positions are disjoint, and covers \<open>[s, e)\<close> when the union of its intervals
  is that interval.
\<close>

definition windows_sorted :: "(real \<times> real) list \<Rightarrow> bool" where
  "windows_sorted ws = sorted (map fst ws)"

definition windows_disjoint :: "(real \<times> real) list \<Rightarrow> bool" where
  "windows_disjoint ws =
     (\<forall>i < length ws. \<forall>j < length ws.
        i \<noteq> j \<longrightarrow> {fst (ws ! i) ..< snd (ws ! i)} \<inter> {fst (ws ! j) ..< snd (ws ! j)} = {})"

definition windows_cover :: "(real \<times> real) list \<Rightarrow> real \<Rightarrow> real \<Rightarrow> bool" where
  "windows_cover ws s e = ((\<Union>w \<in> set ws. {fst w ..< snd w}) = {s ..< e})"

definition windows_tile :: "(real \<times> real) list \<Rightarrow> real \<Rightarrow> real \<Rightarrow> bool" where
  "windows_tile ws s e = (windows_sorted ws \<and> windows_disjoint ws \<and> windows_cover ws s e)"

subsection \<open>Auxiliary notions for the proofs\<close>

definition is_title_card :: "asset_heap \<Rightarrow> asset_ref \<Rightarrow> bool" where
  "is_title_card h = (\<lambda>a. asset_type (h a) = ''title_card'')"

definition is_screenshot :: "asset_heap \<Rightarrow> asset_ref \<Rightarrow> bool" where
  "is_screenshot h = (\<lambda>a. asset_type (h a) = ''screenshot'')"

text \<open>What one entry of \<open>by_section\<close> appends to \<open>assigned\<close>.\<close>

definition section_output ::
  "(string \<rightharpoonup> real \<times> real) \<Rightarrow> asset_heap \<Rightarrow> string \<times> asset_ref list \<Rightarrow> asset_ref list"
where
  "section_output tm h b =
     (case tm (fst b) of None \<Rightarrow> []
      | Some w \<Rightarrow> filter (is_title_card h) (snd b) @ filter (is_screenshot h) (snd b))"

text \<open>An asset without its display window: what \<open>assign_timings\<close> never writes.\<close>

definition strip :: "VisualAsset \<Rightarrow> VisualAsset" where
  "strip a = a\<lparr> display_start := 0, display_end := 0 \<rparr>"

text \<open>
  The keys of \<open>by_section\<close> are distinct and every object is filed under its own
  \<open>section_id\<close>.
\<close>

definition wf_groups :: "asset_heap \<Rightarrow> (string \<times> asset_ref list) list \<Rightarrow> bool" where
  "wf_groups h bs =
     (distinct (map fst bs) \<and> (\<forall>b \<in> set bs. \<forall>a \<in> set (snd b). section_id (h a) = fst b))"

definition initial_state :: "asset_heap \<Rightarrow> sync_state" where
  "initial_state h = \<lparr> heap = h, assigned = [], logged = [] \<rparr>"

subsection \<open>Constructors with the defaults of the dataclasses\<close>

text \<open>
  \<open>VisualAsset(section_id, asset_type, file_path)\<close> and
  \<open>AudioChunk(section_id, text, audio_path, duration_seconds, start_time)\<close>.
\<close>

definition new_asset :: "string \<Rightarrow> string \<Rightarrow> string \<Rightarrow> VisualAsset" where
  "new_asset sid ty path =
     \<lparr> section_id = sid, asset_type = ty, file_path = path, url = None, description = [],
       display_start = 0, display_end = 0 \<rparr>"

definition new_chunk :: "string \<Rightarrow> string \<Rightarrow> string \<Rightarrow> real \<Rightarrow> real \<Rightarrow> AudioChunk" where
  "new_chunk sid txt path dur start =
     \<lparr> AudioChunk.section_id = sid, chunk_text = txt, audio_path = path,
       duration_seconds = dur, start_time = start \<rparr>"

text \<open>A heap from a list of objects: object \<open>i\<close> is the \<open>i\<close>-th of the list.\<close>

definition heap_of :: "VisualAsset list \<Rightarrow> asset_heap" where
  "heap_of objs = (\<lambda>i. if i < length objs then objs ! i else new_asset [] [] [])"

section \<open>Motion engine: \<open>visual_engine/motion.py\<close>\<close>

subsection \<open>Presets\<close>

record motion_preset =
  zoom_start :: real
  zoom_end :: real
  pan_x_start :: int
  pan_x_end :: int
  pan_y_start :: int
  pan_y_end :: int

text \<open>The dictionary \<open>MOTION_PRESETS\<close>, in the order of the source.\<close>

definition MOTION_PRESETS :: "(string \<times> motion_preset) list" where
  "MOTION_PRESETS =
     [(''slow_push_in'',
         \<lparr> zoom_start = 1.0, zoom_end = 1.08,
           pan_x_start = 0, pan_x_end = 0, pan_y_start = 0, pan_y_end = 0 \<rparr>),
      (''slow_pull_out'',
         \<lparr> zoom_start = 1.08, zoom_end = 1.0,
           pan_x_start = 0, pan_x_end = 0, pan_y_start = 0, pan_y_end = 0 \<rparr>),
      (''drift_left'',
         \<lparr> zoom_start = 1.05, zoom_end = 1.05,
           pan_x_start = 30, pan_x_end = -30, pan_y_start = 0, pan_y_end = 0 \<rparr>),
      (''drift_right'',
         \<lparr> zoom_start = 1.05, zoom_end = 1.05,
           pan_x_start = -30, pan_x_end = 30, pan_y_start = 0, pan_y_end = 0 \<rparr>),
      (''diagonal_float'',
         \<lparr> zoom_start = 1.03, zoom_end = 1.08,
           pan_x_start = -20, pan_x_end = 20, pan_y_start = -15, pan_y_end = 15 \<rparr>),
      (''pendulum_sway'',
         \<lparr> zoom_start = 1.02, zoom_end = 1.02,
           pan_x_start = -15, pan_x_end = 15, pan_y_start = 0, pan_y_end = 0 \<rparr>),
      (''static'',
         \<lparr> zoom_start = 1.0, zoom_end = 1.0,
           pan_x_start = 0, pan_x_end = 0, pan_y_start = 0, pan_y_end = 0 \<rparr>)]"

record MotionEngine =
  width :: int
  height :: int
  fps :: int
  codec :: string
  preset :: string

subsection \<open>\<open>MotionEngine._build_motion_filter\<close>\<close>

text \<open>Python's \<open>int(x)\<close> on a float: truncation towards zero.\<close>

definition py_int :: "real \<Rightarrow> int" where
  "py_int x = (if 0 \<le> x then \<lfloor>x\<rfloor> else \<lceil>x\<rceil>)"

text \<open>
  The zoom expression of the \<open>zoompan\<close> filter is either the constant \<open>{zs}\<close> or
  \<open>{zs}+{slope}*on\<close>, where FFmpeg's \<open>on\<close> is the number of the output frame. A pan
  expression is either the centred \<open>iw/2-(iw/zoom/2)\<close> or that plus
  \<open>{start}+{delta}/{total_frames}*on\<close>.
\<close>

datatype zoom_expr = ZoomConst real | ZoomLinear real real

datatype pan_expr = PanCentred | PanLinear int int int

record motion_filter =
  scale_w :: int
  scale_h :: int
  zoom :: zoom_expr
  pan_x :: pan_expr
  pan_y :: pan_expr
  zoompan_d :: int
  out_w :: int
  out_h :: int
  out_fps :: int

definition build_motion_filter ::
  "MotionEngine \<Rightarrow> motion_preset \<Rightarrow> real \<Rightarrow> real \<Rightarrow> motion_filter"
where
  "build_motion_filter eng pre duration intensity =
     (let w = width eng; h = height eng;
          total_frames = max 1 (py_int (duration * real_of_int (fps eng)));
          zs = zoom_start pre;
          zoom_range = (zoom_end pre - zs) * intensity;
          ze = zs + zoom_range;
          pxs = py_int (real_of_int (pan_x_start pre) * intensity);
          pxe = py_int (real_of_int (pan_x_end pre) * intensity);
          pys = py_int (real_of_int (pan_y_start pre) * intensity);
          pye = py_int (real_of_int (pan_y_end pre) * intensity);
          zoom_e = (if \<bar>ze - zs\<bar> < 0.001 then ZoomConst zs
                    else ZoomLinear zs ((ze - zs) / real_of_int total_frames));
          x_e = (if pxs \<noteq> pxe then PanLinear pxs (pxe - pxs) total_frames else PanCentred);
          y_e = (if pys \<noteq> pye then PanLinear pys (pye - pys) total_frames else PanCentred);
          sw = py_int (real_of_int w * max zs ze * 1.1);
          sw' = sw + sw mod 2;
          sh = py_int (real_of_int h * max zs ze * 1.1);
          sh' = sh + sh mod 2
      in \<lparr> scale_w = sw', scale_h = sh', zoom = zoom_e, pan_x = x_e, pan_y = y_e,
           zoompan_d = total_frames, out_w = w, out_h = h, out_fps = fps eng \<rparr>)"

text \<open>The value of a zoom expression at output frame \<open>n\<close>.\<close>

fun zoom_at :: "zoom_expr \<Rightarrow> nat \<Rightarrow> real" where
  "zoom_at (ZoomConst z) n = z"
| "zoom_at (ZoomLinear z slope) n = z + slope * real n"

subsection \<open>\<open>MotionEngine._build_atmosphere_filter\<close>\<close>

datatype atmosphere_filter =
    Flicker real
  | GlitchFlicker real
  | VhsWobble real int int
  | VignettePulse real
  | ChromaticDrift

text \<open>\<open>None\<close> is the empty filter string.\<close>

definition build_atmosphere_filter :: "string \<Rightarrow> real \<Rightarrow> real \<Rightarrow> atmosphere_filter option" where
  "build_atmosphere_filter atmosphere duration intensity =
     (if atmosphere = ''none'' \<or> atmosphere = [] then None
      else
        (let i = max 0.05 (min 1.0 intensity)
         in if atmosphere = ''flicker'' then Some (Flicker (0.08 * i))
            else if atmosphere = ''glitch_flicker'' then Some (GlitchFlicker i)
            else if atmosphere = ''vhs_wobble'' then
              (let amp = py_int (8 * i) in Some (VhsWobble i amp (amp div 2)))
            else if atmosphere = ''vignette_pulse'' then Some (VignettePulse (0.05 * i))
            else if atmosphere = ''chromatic_drift'' then Some ChromaticDrift
            else None))"

subsection \<open>The external compositing tool and the file system\<close>

text \<open>
  One run of \<open>ffmpeg\<close>, by what it is asked to do. \<open>AnimatedClip\<close> is the command of
  \<open>render_animated_clip\<close>, \<open>StaticClip\<close> that of \<open>_static_fallback\<close>, \<open>SfxClip\<close> that of
  \<open>SFXEngine.generate_sfx\<close> (filter source, duration, volume, output).
\<close>

datatype ffmpeg_call =
    AnimatedClip MotionEngine string motion_filter "atmosphere_filter option" real string
  | StaticClip MotionEngine string real string
  | SfxClip string real real string

text \<open>
  The world outside the program: the set of paths that exist, the runs of the external
  tool so far, and the warnings logged. The tool itself is a parameter \<open>run\<close> of the
  functions below: from a call and the existing paths to its return code and the paths
  that exist afterwards. Nothing is assumed about it. That the process can be started at
  all is assumed (a missing executable raises in the source).
\<close>

datatype engine_log =
    WarnFfmpegError
  | WarnUnknownSfx string
  | WarnSfxFailed string

record world =
  files :: "string set"
  calls :: "ffmpeg_call list"
  warnings :: "engine_log list"

type_synonym ffmpeg = "ffmpeg_call \<Rightarrow> string set \<Rightarrow> int \<times> string set"

datatype py_error = KeyError string

subsection \<open>\<open>MotionEngine._static_fallback\<close> and \<open>MotionEngine.render_animated_clip\<close>\<close>

definition static_fallback ::
  "ffmpeg \<Rightarrow> MotionEngine \<Rightarrow> string \<Rightarrow> string \<Rightarrow> real \<Rightarrow> world \<Rightarrow> world"
where
  "static_fallback run eng frame_path output_path duration wd =
     (let cmd = StaticClip eng frame_path duration output_path;
          res = run cmd (files wd)
      in wd\<lparr> files := snd res, calls := calls wd @ [cmd] \<rparr>)"

text \<open>
  The result is the returned path and the world after the call, or the \<open>KeyError\<close> of
  the dictionary lookup \<open>MOTION_PRESETS[motion]\<close>.
\<close>

definition render_animated_clip ::
  "ffmpeg \<Rightarrow> MotionEngine \<Rightarrow> string \<Rightarrow> string \<Rightarrow> real \<Rightarrow> string \<Rightarrow> string \<Rightarrow> real \<Rightarrow> world
     \<Rightarrow> py_error + (string \<times> world)"
where
  "render_animated_clip run eng frame_path output_path duration motion atmosphere intensity wd =
     (if output_path \<in> files wd then Inr (output_path, wd)
      else
        (let motion' = (if map_of MOTION_PRESETS motion \<noteq> None then motion
                        else ''slow_push_in'')
         in case map_of MOTION_PRESETS motion' of
              None \<Rightarrow> Inl (KeyError motion')
            | Some preset_vals \<Rightarrow>
                (let vf = build_motion_filter eng preset_vals duration intensity;
                     atm_filter = build_atmosphere_filter atmosphere duration intensity;
                     cmd = AnimatedClip eng frame_path vf atm_filter duration output_path;
                     res = run cmd (files wd);
                     wd1 = wd\<lparr> files := snd res, calls := calls wd @ [cmd] \<rparr>
                 in if fst res \<noteq> 0
                    then Inr (output_path,
                              static_fallback run eng frame_path output_path duration
                                (wd1\<lparr> warnings := warnings wd1 @ [WarnFfmpegError] \<rparr>))
                    else Inr (output_path, wd1))))"

text \<open>The entry of \<open>MOTION_PRESETS\<close> under \<open>"slow_push_in"\<close>.\<close>

definition slow_push_in_vals :: motion_preset where
  "slow_push_in_vals =
     \<lparr> zoom_start = 1.0, zoom_end = 1.08,
       pan_x_start = 0, pan_x_end = 0, pan_y_start = 0, pan_y_end = 0 \<rparr>"

text \<open>
  An external tool for concrete runs: it succeeds and creates the output file it was
  asked for.
\<close>

fun call_output :: "ffmpeg_call \<Rightarrow> string" where
  "call_output (AnimatedClip eng frame_path vf atm duration output_path) = output_path"
| "call_output (StaticClip eng frame_path duration output_path) = output_path"
| "call_output (SfxClip src duration vol output_path) = output_path"

definition ffmpeg_ok :: ffmpeg where
  "ffmpeg_ok cmd fs = (0, insert (call_output cmd) fs)"

section \<open>Sound effects engine: \<open>visual_engine/sfx.py\<close>\<close>

text \<open>The dictionary \<open>SFX_LIBRARY\<close>: for every cue its lavfi source and its duration.\<close>

definition SFX_LIBRARY :: "(string \<times> string \<times> real) list" where
  "SFX_LIBRARY =
     [(''whoosh_soft'',
         ''anoisesrc=d=0.4:c=pink:r=44100:a=0.4,highpass=f=800,lowpass=f=4000,afade=in:st=0:d=0.05,afade=out:st=0.3:d=0.1'',
         0.4),
      (''whoosh_sharp'',
         ''anoisesrc=d=0.3:c=white:r=44100:a=0.5,highpass=f=2000,lowpass=f=8000,afade=in:st=0:d=0.02,afade=out:st=0.25:d=0.05'',
         0.3),
      (''glitch_burst'',
         ''anoisesrc=d=0.15:c=white:r=44100:a=0.7,highpass=f=3000,lowpass=f=12000,aphaser=in_gain=0.9:out_gain=0.8:delay=3:speed=5'',
         0.15),
      (''film_click'',
         ''anoisesrc=d=0.06:c=white:r=44100:a=0.9,highpass=f=5000,afade=out:st=0.03:d=0.03'',
         0.06),
      (''impact_thud'',
         ''sine=f=60:d=0.3:r=44100,volume=0.8,afade=out:st=0.1:d=0.2'',
         0.3),
      (''power_up'',
         ''sine=f='250+t*300':d=0.5:r=44100,afade=in:st=0:d=0.05,afade=out:st=0.4:d=0.1'',
         0.5),
      (''swoosh'',
         ''anoisesrc=d=0.25:c=pink:r=44100:a=0.6,highpass=f=1500,lowpass=f=6000,afade=in:st=0:d=0.02,afade=out:st=0.2:d=0.05'',
         0.25),
      (''typing_tick'',
         ''anoisesrc=d=0.04:c=white:r=44100:a=0.4,highpass=f=4000,afade=out:st=0.02:d=0.02'',
         0.04),
      (''counter_tick'',
         ''sine=f=800:d=0.05:r=44100,volume=0.5,afade=out:st=0.02:d=0.03'',
         0.05),
      (''scan_beep'',
         ''sine=f=1200:d=0.1:r=44100,volume=0.4,afade=in:st=0:d=0.01,afade=out:st=0.08:d=0.02'',
         0.1),
      (''notification_ping'',
         ''sine=f=1400:d=0.08:r=44100,sine=f=1800:d=0.08:r=44100,amix=inputs=2,afade=out:st=0.05:d=0.03'',
         0.08),
      (''hum_tech'',
         ''sine=f=60:d=4:r=44100,volume=0.15,aecho=0.5:0.5:100:0.3'',
         4.0),
      (''light_static'',
         ''anoisesrc=d=4:c=pink:r=44100:a=0.08,lowpass=f=600'',
         4.0)]"

text \<open>
  An engine after \<open>__init__\<close>: \<open>style\<close> is the entry of \<open>SFX_STYLES\<close> chosen by the
  constructor, a pair of the cue volume and the ambient volume.
\<close>

record SFXEngine =
  sfx_dir :: string
  style_volume :: real
  style_ambient_volume :: real
  sfx_enabled :: bool
  ambient_enabled :: bool

text \<open>\<open>self.sfx_dir / f"{sfx_name}.wav"\<close>.\<close>

definition sfx_path :: "SFXEngine \<Rightarrow> string \<Rightarrow> string" where
  "sfx_path eng sfx_name = sfx_dir eng @ ''/'' @ sfx_name @ ''.wav''"

text \<open>
  \<open>SFXEngine.generate_sfx\<close>. \<open>volume_override or self.style["volume"]\<close> takes the style's
  volume when the override is \<open>None\<close> or \<open>0.0\<close>. The result is the returned path
  (\<open>None\<close> as in the source) and the world after the call.
\<close>

definition generate_sfx ::
  "ffmpeg \<Rightarrow> SFXEngine \<Rightarrow> string \<Rightarrow> real option \<Rightarrow> world \<Rightarrow> string option \<times> world"
where
  "generate_sfx run eng sfx_name volume_override wd =
     (let out = sfx_path eng sfx_name
      in if out \<in> files wd then (Some out, wd)
         else
           (case map_of SFX_LIBRARY sfx_name of
              None \<Rightarrow> (None, wd\<lparr> warnings := warnings wd @ [WarnUnknownSfx sfx_name] \<rparr>)
            | Some sfx \<Rightarrow>
                (let vol = (case volume_override of
                              None \<Rightarrow> style_volume eng
                            | Some v \<Rightarrow> if v = 0 then style_volume eng else v);
                     cmd = SfxClip (fst sfx) (snd sfx) vol out;
                     res = run cmd (files wd);
                     wd1 = wd\<lparr> files := snd res, calls := calls wd @ [cmd] \<rparr>
                 in if fst res \<noteq> 0
                    then (None, wd1\<lparr> warnings := warnings wd1 @ [WarnSfxFailed sfx_name] \<rparr>)
                    else (Some out, wd1))))"

section \<open>Properties of the video assembly service\<close>

subsection \<open>Crossfade offsets\<close>

lemma xfade_loop_length: "length (xfade_loop cfg clips is prev cum) = length is"
  by (induction "is" arbitrary: prev cum) (simp_all add: Let_def)

lemma xfade_loop_offset:
  "j < length is \<Longrightarrow>
   part_offset (xfade_loop cfg clips is prev cum ! j) =
     cum + (\<Sum>i\<leftarrow>take (Suc j) is. snd (clips ! (i - 1)) - transition_duration cfg)"
proof (induction "is" arbitrary: prev cum j)
  case Nil
  then show ?case by simp
next
  case (Cons i rest)
  show ?case
  proof (cases j)
    case 0
    then show ?thesis by (simp add: Let_def)
  next
    case (Suc j')
    with Cons.prems have "j' < length rest" by simp
    from Cons.IH[OF this] Suc show ?thesis by (simp add: Let_def algebra_simps)
  qed
qed

lemma sum_list_upt_shift:
  "n \<le> length (ds :: real list) \<Longrightarrow>
   (\<Sum>i\<leftarrow>[1 ..< Suc n]. ds ! (i - 1) - td) = sum_list (take n ds) - real n * td"
proof (induction n)
  case 0
  then show ?case by simp
next
  case (Suc n)
  then have "take (Suc n) ds = take n ds @ [ds ! n]"
    by (simp add: take_Suc_conv_app_nth)
  with Suc show ?case by (simp add: algebra_simps)
qed

lemma xfade_offset_rule:
  assumes "1 \<le> i" and "i < length clips"
  shows "xfade_offsets cfg clips ! (i - 1) =
           sum_list (map snd (take i clips)) - real i * transition_duration cfg"
proof -
  obtain j where j: "i = Suc j" using assms(1) by (cases i) auto
  have len: "j < length [1 ..< length clips]" using assms j by simp
  have tk: "take (Suc j) [1 ..< length clips] = [1 ..< Suc (Suc j)]"
    using assms j by (simp add: take_upt)
  have "xfade_offsets cfg clips ! j =
          part_offset (xfade_loop cfg clips [1 ..< length clips] In0 0 ! j)"
    unfolding xfade_offsets_def using len by (simp add: xfade_loop_length)
  also have "\<dots> = (\<Sum>k\<leftarrow>[1 ..< Suc (Suc j)]. snd (clips ! (k - 1)) - transition_duration cfg)"
    using xfade_loop_offset[OF len] tk by simp
  also have "\<dots> = (\<Sum>k\<leftarrow>[1 ..< Suc (Suc j)]. map snd clips ! (k - 1) - transition_duration cfg)"
    using assms j by (intro arg_cong[where f=sum_list] map_cong) auto
  also have "\<dots> = sum_list (take (Suc j) (map snd clips)) - real (Suc j) * transition_duration cfg"
    using assms j by (intro sum_list_upt_shift) simp
  finally show ?thesis using j by (simp add: take_map)
qed

lemma xfade_offsets_555:
  "transition_duration cfg = 0.5 \<Longrightarrow>
   xfade_offsets cfg [(a, 5), (b, 5), (c, 5)] = [4.5, 9]"
  by (simp add: xfade_offsets_def upt_rec Let_def)

text \<open>
  C2, as stated, fails: with three clips of 5 s and a transition of 0.5 s the second
  transition is at offset 9.0, not at 8.5.
\<close>

theorem xfade_second_offset_counterexample:
  "xfade_offsets \<lparr> transition_duration = 0.5, transition_type = ''fade'',
                   video_codec = ''libx264'', ffmpeg_preset = ''fast'',
                   quality_checks_enabled = True, max_sync_drift_sec = 1 \<rparr>
     [(''c0.mp4'', 5), (''c1.mp4'', 5), (''c2.mp4'', 5)] ! 1 \<noteq> 8.5"
  by (simp add: xfade_offsets_def upt_rec Let_def)

text \<open>
  C2, amended: transition \<open>i\<close> (counted from 1) is at the sum of the durations of the
  clips before it minus \<open>i\<close> times the transition duration; for three clips of 5 s and
  a transition of 0.5 s the offsets are 4.5 and 9.0.
\<close>

theorem xfade_offsets_amended:
  "(1 \<le> i \<and> i < length clips \<longrightarrow>
      xfade_offsets cfg clips ! (i - 1) =
        sum_list (map snd (take i clips)) - real i * transition_duration cfg) \<and>
   length (xfade_offsets cfg clips) = length clips - 1 \<and>
   (transition_duration cfg = 0.5 \<longrightarrow>
      xfade_offsets cfg [(a, 5), (b, 5), (c, 5)] = [4.5, 9])"
proof (intro conjI impI)
  assume "1 \<le> i \<and> i < length clips"
  then show "xfade_offsets cfg clips ! (i - 1) =
        sum_list (map snd (take i clips)) - real i * transition_duration cfg"
    using xfade_offset_rule by blast
next
  show "length (xfade_offsets cfg clips) = length clips - 1"
    by (simp add: xfade_offsets_def xfade_loop_length)
next
  assume "transition_duration cfg = 0.5"
  then show "xfade_offsets cfg [(a, 5), (b, 5), (c, 5)] = [4.5, 9]"
    by (rule xfade_offsets_555)
qed

theorem xfade_offsets_amended_witness:
  "xfade_offsets \<lparr> transition_duration = 0.5, transition_type = ''fade'',
                   video_codec = ''libx264'', ffmpeg_preset = ''fast'',
                   quality_checks_enabled = True, max_sync_drift_sec = 1 \<rparr>
     [(''c0.mp4'', 4), (''c1.mp4'', 6), (''c2.mp4'', 5)] ! (2 - 1) = (4 + 6) - 2 * 0.5 \<and>
   xfade_offsets \<lparr> transition_duration = 0.5, transition_type = ''fade'',
                   video_codec = ''libx264'', ffmpeg_preset = ''fast'',
                   quality_checks_enabled = True, max_sync_drift_sec = 1 \<rparr>
     [(''c0.mp4'', 5), (''c1.mp4'', 5), (''c2.mp4'', 5)] = [4.5, 9]"
  using xfade_offsets_amended[of 2 "[(''c0.mp4'', 4), (''c1.mp4'', 6), (''c2.mp4'', 5)]"
          "\<lparr> transition_duration = 0.5, transition_type = ''fade'',
             video_codec = ''libx264'', ffmpeg_preset = ''fast'',
             quality_checks_enabled = True, max_sync_drift_sec = 1 \<rparr>"
          "''c0.mp4''" "''c1.mp4''" "''c2.mp4''"]
  by simp

subsection \<open>Duration correction\<close>

text \<open>
  C6: within 0.1 s of the target the track is copied unchanged; otherwise a longer track
  is hard-trimmed to the target and a shorter one is clone-padded by exactly the gap
  \<open>target - actual\<close>. The three cases are read in the order of the source: the first test
  wins.
\<close>

theorem trim_pad_cases:
  "(\<bar>actual - target\<bar> < 0.1 \<longrightarrow> trim_pad actual target = CopyUnchanged) \<and>
   (\<not> \<bar>actual - target\<bar> < 0.1 \<and> actual > target \<longrightarrow>
      trim_pad actual target = HardTrim target) \<and>
   (\<not> \<bar>actual - target\<bar> < 0.1 \<and> actual < target \<longrightarrow>
      trim_pad actual target = ClonePad (target - actual))"
  by (auto simp: trim_pad_def)

theorem trim_pad_cases_witness:
  "trim_pad 60.05 60 = CopyUnchanged \<and> trim_pad 61.5 60 = HardTrim 60 \<and>
   trim_pad 58 60 = ClonePad (60 - 58)"
  using trim_pad_cases[of "60.05" "60"] trim_pad_cases[of "61.5" "60"] trim_pad_cases[of "58" "60"]
  by simp

subsection \<open>Drift warning\<close>

lemma drift_warning_logged_iff:
  "drift_warning_logged cfg actual total_dur \<longleftrightarrow>
     (quality_checks_enabled cfg \<and> max_sync_drift_sec cfg < \<bar>actual - total_dur\<bar>)"
  by (simp add: drift_warning_logged_def assemble_drift_log_def Let_def)

text \<open>
  C3, as stated, fails: with quality checks enabled, an actual duration of 61.3 s, a
  target of 60.0 s and a threshold of 1.0 s the drift is 1.3 s and the warning is logged.
\<close>

theorem drift_warning_counterexample:
  "drift_warning_logged \<lparr> transition_duration = 0.5, transition_type = ''fade'',
                          video_codec = ''libx264'', ffmpeg_preset = ''fast'',
                          quality_checks_enabled = True, max_sync_drift_sec = 1 \<rparr>
     61.3 60"
  by (simp add: drift_warning_logged_def assemble_drift_log_def Let_def)

text \<open>
  C3, amended: the warning is logged exactly when quality checks are enabled and the
  absolute difference of the actual and the target duration is greater than the
  threshold; with threshold 1.0 s and target 60.0 s it is logged for an actual duration
  of 61.3 s as well as for one of 58.5 s (when quality checks are enabled).
\<close>

theorem drift_warning_amended:
  "(drift_warning_logged cfg actual total_dur \<longleftrightarrow>
      (quality_checks_enabled cfg \<and> max_sync_drift_sec cfg < \<bar>actual - total_dur\<bar>)) \<and>
   (quality_checks_enabled cfg \<and> max_sync_drift_sec cfg = 1 \<longrightarrow>
      drift_warning_logged cfg 61.3 60 \<and> drift_warning_logged cfg 58.5 60)"
  by (simp add: drift_warning_logged_iff)

theorem drift_warning_amended_witness:
  "drift_warning_logged \<lparr> transition_duration = 0.5, transition_type = ''fade'',
                          video_codec = ''libx264'', ffmpeg_preset = ''fast'',
                          quality_checks_enabled = True, max_sync_drift_sec = 1 \<rparr>
     58.5 60 \<and>
   \<not> drift_warning_logged \<lparr> transition_duration = 0.5, transition_type = ''fade'',
                          video_codec = ''libx264'', ffmpeg_preset = ''fast'',
                          quality_checks_enabled = True, max_sync_drift_sec = 1 \<rparr>
     60.4 60"
  using drift_warning_amended[of "\<lparr> transition_duration = 0.5, transition_type = ''fade'',
                          video_codec = ''libx264'', ffmpeg_preset = ''fast'',
                          quality_checks_enabled = True, max_sync_drift_sec = 1 \<rparr>" "60.4" "60"]
  by simp

section \<open>Properties of the A/V sync service\<close>

subsection \<open>The timing map\<close>

lemma fold_timing_map_dom:
  "dom (fold (\<lambda>chunk timing_map.
             timing_map(AudioChunk.section_id chunk \<mapsto>
               (start_time chunk, start_time chunk + duration_seconds chunk))) cs m)
   = dom m \<union> AudioChunk.section_id ` set cs"
  by (induction cs arbitrary: m) auto

lemma dom_build_timing_map:
  "dom (build_timing_map audio_chunks) = AudioChunk.section_id ` set audio_chunks"
  by (simp add: build_timing_map_def fold_timing_map_dom)

lemma build_timing_map_snoc:
  "build_timing_map (cs @ [c]) =
     (build_timing_map cs)(AudioChunk.section_id c \<mapsto> (start_time c, start_time c + duration_seconds c))"
  by (simp add: build_timing_map_def)

subsection \<open>Grouping\<close>

lemma setdefault_append_keys:
  "map fst (setdefault_append k a bs) =
     (if k \<in> fst ` set bs then map fst bs else map fst bs @ [k])"
  by (induction bs) (fastforce simp: image_iff)+

lemma setdefault_append_lookup:
  "map_of (setdefault_append k a bs) k' =
     (if k' = k then Some (case map_of bs k of None \<Rightarrow> [a] | Some as \<Rightarrow> as @ [a])
      else map_of bs k')"
  by (induction bs) (auto)

lemma group_by_section_snoc:
  "group_by_section h (xs @ [x]) = setdefault_append (section_id (h x)) x (group_by_section h xs)"
  by (simp add: group_by_section_def)

lemma group_by_section_keys:
  "distinct (map fst (group_by_section h xs)) \<and>
   set (map fst (group_by_section h xs)) = (\<lambda>a. section_id (h a)) ` set xs"
proof (induction xs rule: rev_induct)
  case Nil
  then show ?case by (simp add: group_by_section_def)
next
  case (snoc x xs)
  let ?bs = "group_by_section h xs" and ?k = "section_id (h x)"
  from snoc have d: "distinct (map fst ?bs)"
    and s: "set (map fst ?bs) = (\<lambda>a. section_id (h a)) ` set xs" by blast+
  have eq: "map fst (group_by_section h (xs @ [x])) =
          (if ?k \<in> set (map fst ?bs) then map fst ?bs else map fst ?bs @ [?k])"
    by (simp add: group_by_section_snoc setdefault_append_keys)
  show ?case
  proof (cases "?k \<in> set (map fst ?bs)")
    case True
    with eq d s show ?thesis by (auto simp del: set_map)
  next
    case False
    with eq d s show ?thesis by (auto simp del: set_map)
  qed
qed

lemma group_by_section_lookup:
  "map_of (group_by_section h xs) sid =
     (if sid \<in> (\<lambda>a. section_id (h a)) ` set xs
      then Some (filter (\<lambda>a. section_id (h a) = sid) xs) else None)"
proof (induction xs arbitrary: sid rule: rev_induct)
  case Nil
  then show ?case by (simp add: group_by_section_def)
next
  case (snoc x xs)
  let ?k = "section_id (h x)"
  show ?case
  proof (cases "sid = ?k")
    case True
    have "filter (\<lambda>a. section_id (h a) = ?k) xs = []" if "?k \<notin> (\<lambda>a. section_id (h a)) ` set xs"
      using that by (fastforce simp: filter_empty_conv image_iff)
    with True snoc[of ?k] show ?thesis
      by (simp add: group_by_section_snoc setdefault_append_lookup)
  next
    case False
    with snoc[of sid] show ?thesis
      by (auto simp: group_by_section_snoc setdefault_append_lookup)
  qed
qed

lemma group_by_section_entry:
  "(sid, as) \<in> set (group_by_section h xs) \<longleftrightarrow>
     (sid \<in> (\<lambda>a. section_id (h a)) ` set xs \<and> as = filter (\<lambda>a. section_id (h a) = sid) xs)"
proof -
  have "distinct (map fst (group_by_section h xs))"
    using group_by_section_keys by blast
  then have "(sid, as) \<in> set (group_by_section h xs) \<longleftrightarrow> map_of (group_by_section h xs) sid = Some as"
    by (simp add: map_of_eq_Some_iff)
  then show ?thesis by (auto simp: group_by_section_lookup)
qed

lemma group_by_section_member:
  "(sid, as) \<in> set (group_by_section h xs) \<Longrightarrow> r \<in> set as \<Longrightarrow> section_id (h r) = sid \<and> r \<in> set xs"
  by (simp add: group_by_section_entry)

subsection \<open>The loops\<close>

lemma strip_fields:
  "strip a = strip b \<Longrightarrow> section_id a = section_id b \<and> asset_type a = asset_type b"
  by (cases a, cases b) (simp add: strip_def)

lemma title_card_loop_heap:
  "heap (title_card_loop s td tcs st) r =
     (if r \<in> set tcs then (heap st r)\<lparr> display_start := s, display_end := s + td \<rparr> else heap st r)"
  by (induction tcs arbitrary: st) auto

lemma title_card_loop_assigned:
  "assigned (title_card_loop s td tcs st) = assigned st @ tcs"
  by (induction tcs arbitrary: st) auto

lemma title_card_loop_logged:
  "logged (title_card_loop s td tcs st) = logged st"
  by (induction tcs arbitrary: st) auto

lemma extend_title_loop_heap:
  "heap (extend_title_loop e tcs st) r =
     (if r \<in> set tcs then (heap st r)\<lparr> display_end := e \<rparr> else heap st r)"
  by (induction tcs arbitrary: st) auto

lemma extend_title_loop_assigned:
  "assigned (extend_title_loop e tcs st) = assigned st"
  by (induction tcs arbitrary: st) auto

lemma extend_title_loop_logged:
  "logged (extend_title_loop e tcs st) = logged st"
  by (induction tcs arbitrary: st) auto

lemma screenshot_loop_assigned:
  "assigned (screenshot_loop cs p xs st) = assigned st @ map snd xs"
  by (induction xs arbitrary: st) auto

lemma screenshot_loop_logged:
  "logged (screenshot_loop cs p xs st) = logged st"
  by (induction xs arbitrary: st) auto

lemma screenshot_loop_frame:
  "r \<notin> snd ` set xs \<Longrightarrow> heap (screenshot_loop cs p xs st) r = heap st r"
  by (induction xs arbitrary: st) auto

lemma screenshot_loop_strip:
  "strip (heap (screenshot_loop cs p xs st) r) = strip (heap st r)"
  by (induction xs arbitrary: st) (auto simp: strip_def)

lemma screenshot_loop_local:
  "heap st r = heap st' r \<Longrightarrow>
   heap (screenshot_loop cs p xs st) r = heap (screenshot_loop cs p xs st') r"
proof (induction xs arbitrary: st st')
  case Nil
  then show ?case by simp
next
  case (Cons x xs)
  obtain i ss where x: "x = (i, ss)" by (cases x)
  show ?case unfolding x screenshot_loop.simps
    by (rule Cons.IH) (use Cons.prems in auto)
qed

lemma screenshot_loop_value:
  "distinct (map snd xs) \<Longrightarrow> (i, r) \<in> set xs \<Longrightarrow>
   heap (screenshot_loop cs p xs st) r =
     (heap st r)\<lparr> display_start := cs + real i * p, display_end := cs + (real i + 1) * p \<rparr>"
proof (induction xs arbitrary: st)
  case Nil
  then show ?case by simp
next
  case (Cons x xs)
  obtain j ss where x: "x = (j, ss)" by (cases x)
  show ?case
  proof (cases "(i, r) = x")
    case True
    with Cons.prems x have "r \<notin> snd ` set xs" by auto
    with True x show ?thesis by (simp add: screenshot_loop_frame)
  next
    case False
    with Cons.prems have mem: "(i, r) \<in> set xs" and d: "distinct (map snd xs)" by auto
    from mem Cons.prems x have "r \<noteq> ss" by force
    with Cons.IH[OF d mem] x show ?thesis by simp
  qed
qed

lemma strip_is:
  assumes "\<And>r. strip (h' r) = strip (h r)"
  shows "is_title_card h' = is_title_card h" and "is_screenshot h' = is_screenshot h"
  using strip_fields[OF assms] by (auto simp: is_title_card_def is_screenshot_def fun_eq_iff)

lemma snd_set_enumerate: "snd ` set (enumerate n xs) = set xs"
  by (metis map_snd_enumerate set_map)

lemma process_section_None:
  "tm sid = None \<Longrightarrow>
   process_section tm (sid, as) st = st\<lparr> logged := logged st @ [WarnNoAudioTiming sid] \<rparr>"
  by (simp add: process_section_def)

lemma process_section_assigned:
  "assigned (process_section tm b st) = assigned st @ section_output tm (heap st) b"
  by (cases b)
     (auto simp: process_section_def section_output_def Let_def title_card_loop_assigned
        screenshot_loop_assigned extend_title_loop_assigned is_title_card_def is_screenshot_def
        map_snd_enumerate
      split: option.splits)

lemma process_section_logged:
  "logged (process_section tm b st) =
     logged st @ (case tm (fst b) of None \<Rightarrow> [WarnNoAudioTiming (fst b)] | Some w \<Rightarrow> [])"
  by (cases b)
     (auto simp: process_section_def Let_def title_card_loop_logged
        screenshot_loop_logged extend_title_loop_logged split: option.splits)

lemma title_card_loop_strip:
  "strip (heap (title_card_loop s td tcs st) r) = strip (heap st r)"
  by (simp add: title_card_loop_heap strip_def)

lemma extend_title_loop_strip:
  "strip (heap (extend_title_loop e tcs st) r) = strip (heap st r)"
  by (simp add: extend_title_loop_heap strip_def)

lemma process_section_strip:
  "strip (heap (process_section tm b st) r) = strip (heap st r)"
  by (cases b)
     (auto simp: process_section_def Let_def screenshot_loop_strip title_card_loop_strip
        extend_title_loop_strip split: option.splits)

lemma process_section_frame:
  assumes "r \<notin> set (snd b) \<or> tm (fst b) = None \<or> (\<not> is_title_card (heap st) r \<and> \<not> is_screenshot (heap st) r)"
  shows "heap (process_section tm b st) r = heap st r"
proof (cases b)
  case (Pair sid as)
  show ?thesis
  proof (cases "tm sid")
    case None
    with Pair show ?thesis by (simp add: process_section_None)
  next
    case (Some w)
    obtain s e where w: "w = (s, e)" by (cases w)
    have 1: "r \<notin> set (filter (\<lambda>a. asset_type (heap st a) = ''title_card'') as)"
      using assms Pair Some by (auto simp: is_title_card_def)
    have 2: "r \<notin> snd ` set (enumerate 0 (filter (\<lambda>a. asset_type (heap st a) = ''screenshot'') as))"
      using assms Pair Some by (auto simp: is_screenshot_def snd_set_enumerate)
    show ?thesis using 1 2 Pair Some w
      by (auto simp: process_section_def Let_def screenshot_loop_frame title_card_loop_heap
          extend_title_loop_heap)
  qed
qed

lemma process_section_title:
  assumes "tm sid = Some (s, e)" and "r \<in> set as" and "is_title_card (heap st) r"
  shows "heap (process_section tm (sid, as) st) r =
           (heap st r)\<lparr> display_start := s,
                         display_end := (if filter (is_screenshot (heap st)) as = [] then e
                                         else s + min 3 ((e - s) * 0.2)) \<rparr>"
proof -
  have 1: "r \<in> set (filter (\<lambda>a. asset_type (heap st a) = ''title_card'') as)"
    using assms by (simp add: is_title_card_def)
  have 2: "r \<notin> snd ` set (enumerate 0 (filter (\<lambda>a. asset_type (heap st a) = ''screenshot'') as))"
    using assms by (auto simp: is_title_card_def snd_set_enumerate)
  show ?thesis using 1 2 assms(1) unfolding is_screenshot_def
    by (simp add: process_section_def Let_def screenshot_loop_frame title_card_loop_heap
          extend_title_loop_heap)
qed

lemma process_section_screenshot:
  assumes "tm sid = Some (s, e)" and "distinct as"
    and "i < length (filter (is_screenshot (heap st)) as)"
  shows "heap (process_section tm (sid, as) st) (filter (is_screenshot (heap st)) as ! i) =
           (heap st (filter (is_screenshot (heap st)) as ! i))
             \<lparr> display_start := (s + min 3 ((e - s) * 0.2))
                  + real i * ((e - (s + min 3 ((e - s) * 0.2))) / real (length (filter (is_screenshot (heap st)) as))),
               display_end := (s + min 3 ((e - s) * 0.2))
                  + (real i + 1) * ((e - (s + min 3 ((e - s) * 0.2))) / real (length (filter (is_screenshot (heap st)) as))) \<rparr>"
proof -
  let ?sss = "filter (is_screenshot (heap st)) as"
  let ?tcs = "filter (\<lambda>a. asset_type (heap st a) = ''title_card'') as"
  have 3: "(\<lambda>a. asset_type (heap st a) = ''screenshot'') = is_screenshot (heap st)"
    by (simp add: is_screenshot_def)
  have ne: "?sss \<noteq> []" using assms(3) by auto
  have d: "distinct (map snd (enumerate 0 ?sss))" using assms(2) by (simp add: map_snd_enumerate)
  have m: "(i, ?sss ! i) \<in> set (enumerate 0 ?sss)" using assms(3) by (simp add: in_set_enumerate_eq)
  have t: "?sss ! i \<notin> set ?tcs"
    using nth_mem[OF assms(3)] by (auto simp: is_screenshot_def)
  show ?thesis using ne assms(1) t unfolding process_section_def 3
    by (simp add: Let_def screenshot_loop_value[OF d m] title_card_loop_heap)
qed

lemma process_section_local:
  assumes "\<And>a. strip (heap st' a) = strip (heap st a)" and "heap st' r = heap st r"
  shows "heap (process_section tm b st') r = heap (process_section tm b st) r"
proof (cases b)
  case (Pair sid as)
  have f: "(\<lambda>a. asset_type (heap st' a) = t) = (\<lambda>a. asset_type (heap st a) = t)" for t
    using strip_fields[OF assms(1)] by (simp add: fun_eq_iff)
  show ?thesis
  proof (cases "tm sid")
    case None
    with Pair assms(2) show ?thesis by (simp add: process_section_None)
  next
    case (Some w)
    obtain s e where w: "w = (s, e)" by (cases w)
    have tl: "heap (title_card_loop s td tcs st') r = heap (title_card_loop s td tcs st) r" for td tcs
      using assms(2) by (simp add: title_card_loop_heap)
    show ?thesis using Pair Some w unfolding process_section_def f
      by (auto simp: Let_def extend_title_loop_heap tl intro!: screenshot_loop_local)
  qed
qed

lemma fold_sections_strip:
  "strip (heap (fold (process_section tm) bs st) r) = strip (heap st r)"
  by (induction bs arbitrary: st) (simp_all add: process_section_strip)

lemma fold_sections_assigned:
  "assigned (fold (process_section tm) bs st) =
     assigned st @ concat (map (section_output tm (heap st)) bs)"
proof (induction bs arbitrary: st)
  case Nil
  then show ?case by simp
next
  case (Cons b bs)
  have isq: "is_title_card (heap (process_section tm b st)) = is_title_card (heap st)"
       "is_screenshot (heap (process_section tm b st)) = is_screenshot (heap st)"
    using strip_is[of "heap (process_section tm b st)" "heap st"]
    by (simp_all add: process_section_strip)
  have "section_output tm (heap (process_section tm b st)) = section_output tm (heap st)"
    by (rule ext) (simp add: section_output_def isq cong: option.case_cong)
  with Cons show ?case by (simp add: process_section_assigned)
qed

lemma fold_sections_logged:
  "logged (fold (process_section tm) bs st) =
     logged st @ map WarnNoAudioTiming (filter (\<lambda>k. tm k = None) (map fst bs))"
proof (induction bs arbitrary: st)
  case Nil
  then show ?case by simp
next
  case (Cons b bs)
  then show ?case by (cases "tm (fst b)") (simp_all add: process_section_logged)
qed

lemma fold_sections_frame:
  assumes "\<And>b. b \<in> set bs \<Longrightarrow> r \<notin> set (snd b) \<or> tm (fst b) = None
              \<or> (\<not> is_title_card (heap st) r \<and> \<not> is_screenshot (heap st) r)"
  shows "heap (fold (process_section tm) bs st) r = heap st r"
  using assms
proof (induction bs arbitrary: st)
  case Nil
  then show ?case by simp
next
  case (Cons b bs)
  have isq: "is_title_card (heap (process_section tm b st)) = is_title_card (heap st)"
       "is_screenshot (heap (process_section tm b st)) = is_screenshot (heap st)"
    using strip_is[of "heap (process_section tm b st)" "heap st"]
    by (simp_all add: process_section_strip)
  have "heap (fold (process_section tm) bs (process_section tm b st)) r
        = heap (process_section tm b st) r"
    by (rule Cons.IH) (use Cons.prems isq in auto)
  also have "\<dots> = heap st r"
    by (rule process_section_frame) (use Cons.prems in auto)
  finally show ?case by simp
qed

lemma wf_groups_strip:
  "(\<And>a. strip (h' a) = strip (h a)) \<Longrightarrow> wf_groups h' bs = wf_groups h bs"
  using strip_fields[of "h' _" "h _"] by (simp add: wf_groups_def)

lemma wf_groups_group_by_section: "wf_groups h (group_by_section h xs)"
  unfolding wf_groups_def using group_by_section_keys[of h xs] group_by_section_member[of _ _ h xs]
  by (metis prod.collapse)

lemma fold_sections_local:
  assumes "wf_groups (heap st) bs" and "(sid, as) \<in> set bs" and "r \<in> set as"
  shows "heap (fold (process_section tm) bs st) r = heap (process_section tm (sid, as) st) r"
  using assms
proof (induction bs arbitrary: st)
  case Nil
  then show ?case by simp
next
  case (Cons b bs)
  let ?st' = "process_section tm b st"
  have st': "\<And>a. strip (heap ?st' a) = strip (heap st a)" by (simp add: process_section_strip)
  from Cons.prems(1) have wf: "wf_groups (heap st) bs" and d: "fst b \<notin> fst ` set bs"
    and mem: "\<forall>a \<in> set (snd b). section_id (heap st a) = fst b"
    by (auto simp: wf_groups_def)
  from Cons.prems(1,2,3) have sec: "section_id (heap st r) = sid"
    by (fastforce simp: wf_groups_def)
  show ?case
  proof (cases "b = (sid, as)")
    case True
    have "heap (fold (process_section tm) bs ?st') r = heap ?st' r"
    proof (rule fold_sections_frame)
      fix b' assume b': "b' \<in> set bs"
      with d True have "fst b' \<noteq> sid" by (metis fst_conv image_eqI)
      moreover from wf b' have "\<forall>a \<in> set (snd b'). section_id (heap st a) = fst b'"
        by (simp add: wf_groups_def)
      ultimately have "r \<notin> set (snd b')" using sec by auto
      then show "r \<notin> set (snd b') \<or> tm (fst b') = None
              \<or> (\<not> is_title_card (heap ?st') r \<and> \<not> is_screenshot (heap ?st') r)" by simp
    qed
    with True show ?thesis by simp
  next
    case False
    with Cons.prems(2) have in_bs: "(sid, as) \<in> set bs" by simp
    with d have "fst b \<noteq> sid" by (metis fst_conv image_eqI)
    with mem sec have "r \<notin> set (snd b)" by auto
    then have same: "heap ?st' r = heap st r" by (simp add: process_section_frame)
    have "wf_groups (heap ?st') bs" using wf wf_groups_strip[OF st'] by simp
    from Cons.IH[OF this in_bs Cons.prems(3)]
    have "heap (fold (process_section tm) bs ?st') r = heap (process_section tm (sid, as) ?st') r" .
    also have "\<dots> = heap (process_section tm (sid, as) st) r"
      by (rule process_section_local) (simp_all add: st' same)
    finally show ?thesis by simp
  qed
qed

text \<open>Facts about the whole function.\<close>

lemma assign_timings_heap:
  "heap (assign_timings cs xs h) =
     heap (fold (process_section (build_timing_map cs)) (group_by_section h xs) (initial_state h))"
  by (simp add: assign_timings_def Let_def initial_state_def)

lemma assign_timings_strip:
  "strip (heap (assign_timings cs xs h) r) = strip (h r)"
  by (simp add: assign_timings_heap fold_sections_strip initial_state_def)

lemma set_section_output:
  "set (section_output tm h b) =
     (if fst b \<in> dom tm then {a \<in> set (snd b). is_title_card h a \<or> is_screenshot h a} else {})"
  by (cases "tm (fst b)") (auto simp: section_output_def)

lemma assign_timings_set:
  "set (assigned (assign_timings cs xs h)) =
     {a \<in> set xs. section_id (h a) \<in> dom (build_timing_map cs)
                 \<and> (is_title_card h a \<or> is_screenshot h a)}"
  (is "?L = ?R")
proof -
  let ?tm = "build_timing_map cs"
  have L: "?L = (\<Union>b \<in> set (group_by_section h xs). set (section_output ?tm h b))"
    by (simp add: assign_timings_def Let_def fold_sections_assigned)
  show ?thesis
  proof (intro equalityI subsetI)
    fix a assume "a \<in> ?L"
    then obtain b where b: "b \<in> set (group_by_section h xs)" and a: "a \<in> set (section_output ?tm h b)"
      unfolding L by blast
    from b have "snd b = filter (\<lambda>a. section_id (h a) = fst b) xs"
      using group_by_section_entry[of "fst b" "snd b" h xs] by simp
    with a show "a \<in> ?R" by (auto simp: set_section_output split: if_splits)
  next
    fix a assume a: "a \<in> ?R"
    let ?b = "(section_id (h a), filter (\<lambda>a'. section_id (h a') = section_id (h a)) xs)"
    from a have "?b \<in> set (group_by_section h xs)" by (simp add: group_by_section_entry)
    moreover from a have "a \<in> set (section_output ?tm h ?b)" by (simp add: set_section_output)
    ultimately show "a \<in> ?L" unfolding L by blast
  qed
qed

subsection \<open>Interval arithmetic\<close>

lemma steps_union:
  fixes c p :: real
  assumes "0 \<le> p"
  shows "(\<Union>k<n. {c + real k * p ..< c + (real k + 1) * p}) = {c ..< c + real n * p}"
proof (induction n)
  case 0
  then show ?case by simp
next
  case (Suc n)
  have le1: "c \<le> c + real n * p" using assms by simp
  have le2: "c + real n * p \<le> c + (real n + 1) * p" using assms by (simp add: algebra_simps)
  have "(\<Union>k<Suc n. {c + real k * p ..< c + (real k + 1) * p})
        = (\<Union>k<n. {c + real k * p ..< c + (real k + 1) * p}) \<union> {c + real n * p ..< c + (real n + 1) * p}"
    by (simp add: lessThan_Suc Un_commute)
  also have "\<dots> = {c ..< c + real n * p} \<union> {c + real n * p ..< c + (real n + 1) * p}"
    by (simp only: Suc.IH)
  also have "\<dots> = {c ..< c + (real n + 1) * p}"
    using le1 le2 by (rule ivl_disj_un_two)
  finally show ?case by (simp add: algebra_simps)
qed

lemma steps_disjoint:
  fixes c p :: real
  assumes "k \<noteq> l"
  shows "{c + real k * p ..< c + (real k + 1) * p} \<inter> {c + real l * p ..< c + (real l + 1) * p} = {}"
proof (cases "0 \<le> p")
  case False
  then have "c + (real k + 1) * p \<le> c + real k * p" by (simp add: algebra_simps)
  then show ?thesis by simp
next
  case True
  have aux: "{c + real a * p ..< c + (real a + 1) * p} \<inter> {c + real b * p ..< c + (real b + 1) * p} = {}"
    if "a < b" for a b :: nat
  proof -
    from that have "real a + 1 \<le> real b" by simp
    then have "(real a + 1) * p \<le> real b * p" using True by (rule mult_right_mono)
    then show ?thesis by auto
  qed
  from assms consider "k < l" | "l < k" by linarith
  then show ?thesis
  proof cases
    case 1 then show ?thesis by (rule aux)
  next
    case 2 then show ?thesis using aux[OF 2] by (simp add: Int_commute)
  qed
qed

lemma title_step_disjoint:
  fixes s cs p :: real
  shows "{s ..< cs} \<inter> {cs + real k * p ..< cs + (real k + 1) * p} = {}"
proof (cases "0 \<le> p")
  case False
  then have "cs + (real k + 1) * p \<le> cs + real k * p" by (simp add: algebra_simps)
  then show ?thesis by simp
next
  case True
  then have "cs \<le> cs + real k * p" by simp
  then show ?thesis by auto
qed

lemma section_cover:
  fixes s e :: real
  assumes "0 < n"
  defines "td \<equiv> min 3 ((e - s) * 0.2)"
  defines "cs \<equiv> s + td"
  defines "p \<equiv> (e - cs) / real n"
  shows "{s ..< cs} \<union> (\<Union>k<n. {cs + real k * p ..< cs + (real k + 1) * p}) = {s ..< e}"
proof (cases "s \<le> e")
  case True
  then have td: "0 \<le> td" and "td \<le> e - s" unfolding td_def by (simp_all add: min_def)
  then have cse: "cs \<le> e" unfolding cs_def by linarith
  then have p: "0 \<le> p" unfolding p_def by simp
  have e: "cs + real n * p = e" unfolding p_def using assms(1) by simp
  have "(\<Union>k<n. {cs + real k * p ..< cs + (real k + 1) * p}) = {cs ..< e}"
    using steps_union[OF p, where n=n and c=cs] e by simp
  moreover have "{s ..< cs} \<union> {cs ..< e} = {s ..< e}"
    by (rule ivl_disj_un_two) (use td cse in \<open>simp_all add: cs_def\<close>)
  ultimately show ?thesis by simp
next
  case False
  then have td: "td < 0" and "e - s < td" unfolding td_def by (simp_all add: min_def)
  then have "e < cs" unfolding cs_def by linarith
  then have p: "p < 0" unfolding p_def using assms(1) by (simp add: divide_neg_pos)
  have "{cs + real k * p ..< cs + (real k + 1) * p} = {}" for k
    using p by (simp add: algebra_simps)
  moreover have "{s ..< cs} = {}" using td by (simp add: cs_def)
  moreover have "{s ..< e} = {}" using False by simp
  ultimately show ?thesis by simp
qed

subsection \<open>The heap after \<open>assign_timings\<close>\<close>

lemma assign_timings_heap_at:
  assumes "r \<in> set xs"
  shows "heap (assign_timings cs xs h) r =
           heap (process_section (build_timing_map cs)
                   (section_id (h r), filter (\<lambda>a. section_id (h a) = section_id (h r)) xs)
                   (initial_state h)) r"
proof -
  let ?as = "filter (\<lambda>a. section_id (h a) = section_id (h r)) xs"
  have wf: "wf_groups (heap (initial_state h)) (group_by_section h xs)"
    by (simp add: initial_state_def wf_groups_group_by_section)
  have m: "(section_id (h r), ?as) \<in> set (group_by_section h xs)"
    using assms by (simp add: group_by_section_entry)
  have r: "r \<in> set ?as" using assms by simp
  show ?thesis unfolding assign_timings_heap by (rule fold_sections_local[OF wf m r])
qed

lemma assign_timings_unchanged:
  assumes "r \<notin> set xs \<or> build_timing_map cs (section_id (h r)) = None
           \<or> (\<not> is_title_card h r \<and> \<not> is_screenshot h r)"
  shows "heap (assign_timings cs xs h) r = h r"
proof -
  have "heap (fold (process_section (build_timing_map cs)) (group_by_section h xs) (initial_state h)) r
        = heap (initial_state h) r"
  proof (rule fold_sections_frame)
    fix b assume b: "b \<in> set (group_by_section h xs)"
    then have "\<forall>a \<in> set (snd b). section_id (h a) = fst b \<and> a \<in> set xs"
      using group_by_section_member[of "fst b" "snd b" h xs] by simp
    with assms show "r \<notin> set (snd b) \<or> build_timing_map cs (fst b) = None
       \<or> (\<not> is_title_card (heap (initial_state h)) r \<and> \<not> is_screenshot (heap (initial_state h)) r)"
      by (auto simp: initial_state_def)
  qed
  then show ?thesis by (simp add: assign_timings_heap initial_state_def)
qed

text \<open>
  C5: a title card of a section with a known timing window starts at the section start;
  when the section has a screenshot the card lasts \<open>min 3.0 (0.2 * section_duration)\<close>,
  and without screenshots its window ends at the section end.
\<close>

theorem title_card_window:
  assumes "a \<in> set visual_assets"
    and "asset_type (h a) = ''title_card''"
    and "build_timing_map audio_chunks (section_id (h a)) = Some (section_start, section_end)"
  shows "display_start (heap (assign_timings audio_chunks visual_assets h) a) = section_start \<and>
         display_end (heap (assign_timings audio_chunks visual_assets h) a) =
           (if \<exists>ss \<in> set visual_assets.
                 section_id (h ss) = section_id (h a) \<and> asset_type (h ss) = ''screenshot''
            then section_start + min 3 (0.2 * (section_end - section_start))
            else section_end)"
proof -
  let ?as = "filter (\<lambda>x. section_id (h x) = section_id (h a)) visual_assets"
  have tc: "is_title_card (heap (initial_state h)) a"
    using assms(2) by (simp add: is_title_card_def initial_state_def)
  have mem: "a \<in> set ?as" using assms(1) by simp
  have ss: "(filter (is_screenshot (heap (initial_state h))) ?as = []) \<longleftrightarrow>
        \<not> (\<exists>ss \<in> set visual_assets.
                 section_id (h ss) = section_id (h a) \<and> asset_type (h ss) = ''screenshot'')"
    by (auto simp: filter_empty_conv is_screenshot_def initial_state_def)
  have "heap (assign_timings audio_chunks visual_assets h) a =
          heap (process_section (build_timing_map audio_chunks) (section_id (h a), ?as) (initial_state h)) a"
    by (rule assign_timings_heap_at[OF assms(1)])
  also have "\<dots> = (heap (initial_state h) a)\<lparr> display_start := section_start,
                         display_end := (if filter (is_screenshot (heap (initial_state h))) ?as = [] then section_end
                                         else section_start + min 3 ((section_end - section_start) * 0.2)) \<rparr>"
    using assms(3) mem tc by (rule process_section_title)
  finally show ?thesis unfolding ss by (auto simp: mult.commute)
qed

theorem title_card_window_witness:
  "display_start (heap (assign_timings [new_chunk ''s1'' [] [] 40 0] [0, 1]
      (heap_of [new_asset ''s1'' ''title_card'' [], new_asset ''s1'' ''screenshot'' []])) 0) = 0 \<and>
   display_end (heap (assign_timings [new_chunk ''s1'' [] [] 40 0] [0, 1]
      (heap_of [new_asset ''s1'' ''title_card'' [], new_asset ''s1'' ''screenshot'' []])) 0) = 3"
  using title_card_window[of 0 "[0, 1]"
          "heap_of [new_asset ''s1'' ''title_card'' [], new_asset ''s1'' ''screenshot'' []]"
          "[new_chunk ''s1'' [] [] 40 0]" 0 40]
  by (simp add: heap_of_def new_asset_def new_chunk_def build_timing_map_def)

text \<open>
  C9: every object in the returned list is a title card or a screenshot; an object of any
  other type keeps the window it came with and is not in the returned list, whatever its
  section.
\<close>

theorem only_title_cards_and_screenshots:
  "(a \<in> set (assigned (assign_timings audio_chunks visual_assets h)) \<longrightarrow>
      asset_type (heap (assign_timings audio_chunks visual_assets h) a) = ''title_card'' \<or>
      asset_type (heap (assign_timings audio_chunks visual_assets h) a) = ''screenshot'') \<and>
   (asset_type (h a) \<noteq> ''title_card'' \<and> asset_type (h a) \<noteq> ''screenshot'' \<longrightarrow>
      heap (assign_timings audio_chunks visual_assets h) a = h a \<and>
      a \<notin> set (assigned (assign_timings audio_chunks visual_assets h)))"
proof -
  have ty: "asset_type (heap (assign_timings audio_chunks visual_assets h) a) = asset_type (h a)"
    using strip_fields[OF assign_timings_strip] by simp
  show ?thesis unfolding ty
    by (auto simp: assign_timings_set assign_timings_unchanged is_title_card_def is_screenshot_def)
qed

theorem only_title_cards_and_screenshots_witness:
  "heap (assign_timings [new_chunk ''s1'' [] [] 40 0] [0, 1]
      (heap_of [new_asset ''s1'' ''title_card'' [], new_asset ''s1'' ''generated'' []])) 1
     = new_asset ''s1'' ''generated'' [] \<and>
   1 \<notin> set (assigned (assign_timings [new_chunk ''s1'' [] [] 40 0] [0, 1]
      (heap_of [new_asset ''s1'' ''title_card'' [], new_asset ''s1'' ''generated'' []])))"
  using only_title_cards_and_screenshots[of 1 "[new_chunk ''s1'' [] [] 40 0]" "[0, 1]"
          "heap_of [new_asset ''s1'' ''title_card'' [], new_asset ''s1'' ''generated'' []]"]
  by (simp add: heap_of_def new_asset_def)

subsection \<open>Sections without audio timing\<close>

lemma filter_setdefault_append:
  "filter (\<lambda>b. fst b \<noteq> sid) (setdefault_append k a bs) =
     (if k = sid then filter (\<lambda>b. fst b \<noteq> sid) bs
      else setdefault_append k a (filter (\<lambda>b. fst b \<noteq> sid) bs))"
  by (induction bs) auto

lemma group_by_section_filter:
  "group_by_section h (filter (\<lambda>a. section_id (h a) \<noteq> sid) xs) =
     filter (\<lambda>b. fst b \<noteq> sid) (group_by_section h xs)"
proof (induction xs rule: rev_induct)
  case Nil
  then show ?case by (simp add: group_by_section_def)
next
  case (snoc x xs)
  then show ?case
    by (simp add: group_by_section_snoc filter_setdefault_append)
qed

lemma process_section_heap_cong:
  assumes "heap st' = heap st"
  shows "heap (process_section tm b st') = heap (process_section tm b st)"
proof (rule ext)
  fix r
  show "heap (process_section tm b st') r = heap (process_section tm b st) r"
    by (rule process_section_local) (simp_all add: assms)
qed

lemma fold_sections_skip:
  assumes "tm sid = None" and "heap st' = heap st"
  shows "heap (fold (process_section tm) (filter (\<lambda>b. fst b \<noteq> sid) bs) st') =
         heap (fold (process_section tm) bs st)"
  using assms(2)
proof (induction bs arbitrary: st st')
  case Nil
  then show ?case by simp
next
  case (Cons b bs)
  show ?case
  proof (cases "fst b = sid")
    case True
    then have "heap (process_section tm b st) = heap st"
      using assms(1) process_section_None[of tm sid "snd b" st] by (cases b) simp
    with Cons.prems have "heap st' = heap (process_section tm b st)" by simp
    from Cons.IH[OF this] True show ?thesis by simp
  next
    case False
    have "heap (process_section tm b st') = heap (process_section tm b st)"
      using Cons.prems by (rule process_section_heap_cong)
    from Cons.IH[OF this] False show ?thesis by simp
  qed
qed

lemma concat_section_output_skip:
  assumes "tm sid = None"
  shows "concat (map (section_output tm h) (filter (\<lambda>b. fst b \<noteq> sid) bs)) =
         concat (map (section_output tm h) bs)"
  using assms by (induction bs) (auto simp: section_output_def)

lemma assign_timings_skip:
  assumes "build_timing_map cs sid = None"
  shows "heap (assign_timings cs (filter (\<lambda>a. section_id (h a) \<noteq> sid) xs) h) =
           heap (assign_timings cs xs h)"
    and "assigned (assign_timings cs (filter (\<lambda>a. section_id (h a) \<noteq> sid) xs) h) =
           assigned (assign_timings cs xs h)"
proof -
  let ?tm = "build_timing_map cs"
  let ?bs = "group_by_section h xs"
  let ?st0 = "\<lparr> heap = h, assigned = [], logged = [] \<rparr>"
  have H: "heap (fold (process_section ?tm) (filter (\<lambda>b. fst b \<noteq> sid) ?bs) ?st0) =
           heap (fold (process_section ?tm) ?bs ?st0)"
    using assms by (rule fold_sections_skip[where tm="?tm" and sid=sid]) simp
  have A: "assigned (fold (process_section ?tm) (filter (\<lambda>b. fst b \<noteq> sid) ?bs) ?st0) =
           assigned (fold (process_section ?tm) ?bs ?st0)"
    using assms
    by (simp add: fold_sections_assigned concat_section_output_skip[where tm="?tm" and sid=sid])
  show "heap (assign_timings cs (filter (\<lambda>a. section_id (h a) \<noteq> sid) xs) h) =
           heap (assign_timings cs xs h)"
    by (simp add: assign_timings_def Let_def group_by_section_filter H)
  show "assigned (assign_timings cs (filter (\<lambda>a. section_id (h a) \<noteq> sid) xs) h) =
           assigned (assign_timings cs xs h)"
    by (simp add: assign_timings_def Let_def group_by_section_filter H A)
qed

lemma assign_timings_logged:
  "logged (assign_timings cs xs h) =
     map WarnNoAudioTiming (filter (\<lambda>k. build_timing_map cs k = None) (map fst (group_by_section h xs)))
     @ [InfoAssigned (length (assigned (assign_timings cs xs h)))]"
  by (simp add: assign_timings_def Let_def fold_sections_logged)

text \<open>
  C7: when no audio chunk has the section id of an asset, the warning for that section is
  logged, the asset keeps the window it came with and is not in the returned list; the
  returned list and the heap are those of the call without the assets of that section (the
  other sections are processed as usual), and every returned asset belongs to a section
  that has an audio chunk.
\<close>

theorem missing_timing_skips_section:
  assumes "sid \<notin> AudioChunk.section_id ` set audio_chunks"
    and "a \<in> set visual_assets" and "section_id (h a) = sid"
  shows "WarnNoAudioTiming sid \<in> set (logged (assign_timings audio_chunks visual_assets h)) \<and>
         heap (assign_timings audio_chunks visual_assets h) a = h a \<and>
         a \<notin> set (assigned (assign_timings audio_chunks visual_assets h)) \<and>
         assigned (assign_timings audio_chunks visual_assets h) =
           assigned (assign_timings audio_chunks
                       (filter (\<lambda>x. section_id (h x) \<noteq> sid) visual_assets) h) \<and>
         heap (assign_timings audio_chunks visual_assets h) =
           heap (assign_timings audio_chunks
                   (filter (\<lambda>x. section_id (h x) \<noteq> sid) visual_assets) h) \<and>
         (\<forall>x \<in> set (assigned (assign_timings audio_chunks visual_assets h)).
            section_id (heap (assign_timings audio_chunks visual_assets h) x)
              \<in> AudioChunk.section_id ` set audio_chunks)"
proof -
  let ?tm = "build_timing_map audio_chunks"
  let ?st = "assign_timings audio_chunks visual_assets h"
  have none: "?tm sid = None"
    using assms(1) dom_build_timing_map[of audio_chunks] by (auto simp: dom_def)
  have key: "sid \<in> set (map fst (group_by_section h visual_assets))"
    using assms(2,3) group_by_section_keys[of h visual_assets] by auto
  have 1: "WarnNoAudioTiming sid \<in> set (logged ?st)"
    using key none by (simp add: assign_timings_logged)
  have 2: "heap ?st a = h a"
    using none assms(3) by (simp add: assign_timings_unchanged)
  have 3: "a \<notin> set (assigned ?st)"
    using none assms(3) by (auto simp: assign_timings_set)
  have sec: "section_id (heap ?st x) = section_id (h x)" for x
    using strip_fields[OF assign_timings_strip] by simp
  have 6: "\<forall>x \<in> set (assigned ?st). section_id (heap ?st x) \<in> AudioChunk.section_id ` set audio_chunks"
    unfolding sec by (auto simp: assign_timings_set dom_build_timing_map)
  show ?thesis using 1 2 3 6 assign_timings_skip[OF none, of h visual_assets] by simp
qed

subsection \<open>The windows of one section\<close>

lemma filter_section_output_other:
  assumes "fst b \<noteq> sid" and "\<forall>a \<in> set (snd b). section_id (h a) = fst b"
  shows "filter (\<lambda>a. section_id (h a) = sid) (section_output tm h b) = []"
  using assms by (cases "tm (fst b)") (auto simp: section_output_def filter_empty_conv)

lemma filter_section_output_same:
  assumes "\<forall>a \<in> set (snd b). section_id (h a) = fst b"
  shows "filter (\<lambda>a. section_id (h a) = fst b) (section_output tm h b) = section_output tm h b"
proof -
  have "filter (\<lambda>x. P x \<and> section_id (h x) = fst b) (snd b) = filter P (snd b)" for P
    using assms by (intro filter_cong) auto
  then show ?thesis by (cases "tm (fst b)") (simp_all add: section_output_def)
qed

lemma filter_concat_sections_none:
  assumes "wf_groups h bs" and "sid \<notin> fst ` set bs"
  shows "filter (\<lambda>a. section_id (h a) = sid) (concat (map (section_output tm h) bs)) = []"
  using assms
proof (induction bs)
  case Nil
  then show ?case by simp
next
  case (Cons b bs)
  then have "wf_groups h bs" "sid \<notin> fst ` set bs" "fst b \<noteq> sid"
    "\<forall>a \<in> set (snd b). section_id (h a) = fst b"
    by (auto simp: wf_groups_def)
  with Cons.IH show ?case by (simp add: filter_section_output_other)
qed

lemma filter_concat_sections:
  assumes "wf_groups h bs" and "b \<in> set bs"
  shows "filter (\<lambda>a. section_id (h a) = fst b) (concat (map (section_output tm h) bs))
         = section_output tm h b"
  using assms
proof (induction bs)
  case Nil
  then show ?case by simp
next
  case (Cons c bs)
  from Cons.prems(1) have wf: "wf_groups h bs" and d: "fst c \<notin> fst ` set bs"
    and mem: "\<forall>a \<in> set (snd c). section_id (h a) = fst c"
    by (auto simp: wf_groups_def)
  show ?case
  proof (cases "b = c")
    case True
    with d wf mem show ?thesis
      by (simp add: filter_section_output_same filter_concat_sections_none)
  next
    case False
    with Cons.prems(2) have b: "b \<in> set bs" by simp
    with d have "fst c \<noteq> fst b" by (metis image_eqI)
    with mem Cons.IH[OF wf b] show ?thesis by (simp add: filter_section_output_other)
  qed
qed

lemma section_assets_assign_timings:
  assumes "sid \<in> (\<lambda>a. section_id (h a)) ` set xs"
  shows "section_assets (assign_timings cs xs h) sid =
           sort_key (\<lambda>a. display_start (heap (assign_timings cs xs h) a))
             (section_output (build_timing_map cs) h
                (sid, filter (\<lambda>a. section_id (h a) = sid) xs))"
proof -
  let ?st = "assign_timings cs xs h"
  let ?f = "\<lambda>a. display_start (heap ?st a)"
  let ?A = "concat (map (section_output (build_timing_map cs) h) (group_by_section h xs))"
  let ?b = "(sid, filter (\<lambda>a. section_id (h a) = sid) xs)"
  have sec: "section_id (heap ?st x) = section_id (h x)" for x
    using strip_fields[OF assign_timings_strip] by simp
  have A: "assigned ?st = sort_key ?f ?A"
    by (simp add: assign_timings_def Let_def fold_sections_assigned)
  have b: "?b \<in> set (group_by_section h xs)"
    using assms by (simp add: group_by_section_entry)
  have "section_assets ?st sid = filter (\<lambda>a. section_id (h a) = sid) (sort_key ?f ?A)"
    unfolding section_assets_def sec A ..
  also have "\<dots> = sort_key ?f (filter (\<lambda>a. section_id (h a) = sid) ?A)"
    by (rule filter_sort)
  also have "filter (\<lambda>a. section_id (h a) = sid) ?A = section_output (build_timing_map cs) h ?b"
    using filter_concat_sections[OF wf_groups_group_by_section b] by simp
  finally show ?thesis .
qed

lemma assign_timings_screenshot:
  assumes "distinct xs" and "build_timing_map cs sid = Some (s, e)"
    and "k < length (filter (is_screenshot h) (filter (\<lambda>a. section_id (h a) = sid) xs))"
  shows "window (heap (assign_timings cs xs h))
           (filter (is_screenshot h) (filter (\<lambda>a. section_id (h a) = sid) xs) ! k) =
         ((s + min 3 ((e - s) * 0.2))
            + real k * ((e - (s + min 3 ((e - s) * 0.2)))
                / real (length (filter (is_screenshot h) (filter (\<lambda>a. section_id (h a) = sid) xs)))),
          (s + min 3 ((e - s) * 0.2))
            + (real k + 1) * ((e - (s + min 3 ((e - s) * 0.2)))
                / real (length (filter (is_screenshot h) (filter (\<lambda>a. section_id (h a) = sid) xs)))))"
proof -
  let ?as = "filter (\<lambda>a. section_id (h a) = sid) xs"
  let ?sss = "filter (is_screenshot h) ?as"
  let ?r = "?sss ! k"
  have h0: "heap (initial_state h) = h" by (simp add: initial_state_def)
  have r: "?r \<in> set ?sss" using assms(3) by (rule nth_mem)
  then have rx: "?r \<in> set xs" and rs: "section_id (h ?r) = sid" by auto
  have d: "distinct ?as" using assms(1) by simp
  have k: "k < length (filter (is_screenshot (heap (initial_state h))) ?as)"
    using assms(3) by (simp add: h0)
  have "heap (assign_timings cs xs h) ?r =
          heap (process_section (build_timing_map cs) (sid, ?as) (initial_state h)) ?r"
    using assign_timings_heap_at[OF rx, of cs h] rs by simp
  moreover have "heap (process_section (build_timing_map cs) (sid, ?as) (initial_state h))
          (filter (is_screenshot (heap (initial_state h))) ?as ! k) =
        (heap (initial_state h) (filter (is_screenshot (heap (initial_state h))) ?as ! k))
             \<lparr> display_start := (s + min 3 ((e - s) * 0.2))
                  + real k * ((e - (s + min 3 ((e - s) * 0.2))) / real (length (filter (is_screenshot (heap (initial_state h))) ?as))),
               display_end := (s + min 3 ((e - s) * 0.2))
                  + (real k + 1) * ((e - (s + min 3 ((e - s) * 0.2))) / real (length (filter (is_screenshot (heap (initial_state h))) ?as))) \<rparr>"
    using assms(2) d k by (rule process_section_screenshot)
  ultimately show ?thesis by (simp add: window_def h0)
qed

lemma assign_timings_title_card:
  assumes "a \<in> set xs" and "is_title_card h a"
    and "build_timing_map cs (section_id (h a)) = Some (s, e)"
  shows "window (heap (assign_timings cs xs h)) a =
           (s, if filter (is_screenshot h) (filter (\<lambda>x. section_id (h x) = section_id (h a)) xs) = []
               then e else s + min 3 ((e - s) * 0.2))"
proof -
  let ?as = "filter (\<lambda>x. section_id (h x) = section_id (h a)) xs"
  have h0: "heap (initial_state h) = h" by (simp add: initial_state_def)
  have tc: "is_title_card (heap (initial_state h)) a" using assms(2) by (simp add: h0)
  have mem: "a \<in> set ?as" using assms(1) by simp
  have "heap (assign_timings cs xs h) a =
          heap (process_section (build_timing_map cs) (section_id (h a), ?as) (initial_state h)) a"
    by (rule assign_timings_heap_at[OF assms(1)])
  also have "\<dots> = (heap (initial_state h) a)\<lparr> display_start := s,
                 display_end := (if filter (is_screenshot (heap (initial_state h))) ?as = [] then e
                                 else s + min 3 ((e - s) * 0.2)) \<rparr>"
    using assms(3) mem tc by (rule process_section_title)
  finally show ?thesis by (simp add: window_def h0)
qed

lemma UN_set_conv_nth: "(\<Union>r \<in> set ys. g r) = (\<Union>k<length ys. g (ys ! k))"
  unfolding set_conv_nth by blast

lemma windows_disjoint_map:
  assumes "distinct rs"
    and "\<And>r r'. r \<in> set rs \<Longrightarrow> r' \<in> set rs \<Longrightarrow> r \<noteq> r' \<Longrightarrow>
            {fst (w r) ..< snd (w r)} \<inter> {fst (w r') ..< snd (w r')} = {}"
  shows "windows_disjoint (map w rs)"
  unfolding windows_disjoint_def
proof (intro allI impI)
  fix i j assume "i < length (map w rs)" "j < length (map w rs)" "i \<noteq> j"
  then have i: "i < length rs" and j: "j < length rs" and "rs ! i \<noteq> rs ! j"
    using assms(1) by (simp_all add: nth_eq_iff_index_eq)
  then show "{fst (map w rs ! i) ..< snd (map w rs ! i)} \<inter>
             {fst (map w rs ! j) ..< snd (map w rs ! j)} = {}"
    using assms(2)[of "rs ! i" "rs ! j"] by simp
qed

text \<open>
  C1, amended: when every asset object occurs once in the input list, the display
  windows of a section that has a timing-map entry and exactly one title card are, in the
  order of the returned list, sorted by start time, pairwise non-overlapping, and their
  union is the section interval \<open>[section_start, section_end)\<close>.
\<close>

theorem section_windows_tile:
  assumes "distinct xs"
    and "build_timing_map cs sid = Some (s, e)"
    and "length (filter (\<lambda>a. section_id (h a) = sid \<and> asset_type (h a) = ''title_card'') xs) = 1"
  shows "windows_tile (section_windows (assign_timings cs xs h) sid) s e"
proof -
  let ?st = "assign_timings cs xs h"
  let ?as = "filter (\<lambda>a. section_id (h a) = sid) xs"
  let ?tcs = "filter (is_title_card h) ?as"
  let ?sss = "filter (is_screenshot h) ?as"
  let ?f = "\<lambda>a. display_start (heap ?st a)"
  let ?w = "window (heap ?st)"
  let ?I = "\<lambda>r. {fst (?w r) ..< snd (?w r)}"
  define n where "n = length ?sss"
  define td where "td = min 3 ((e - s) * 0.2)"
  define c where "c = s + td"
  define p where "p = (e - c) / real n"
  have tcs_eq: "?tcs = filter (\<lambda>a. section_id (h a) = sid \<and> asset_type (h a) = ''title_card'') xs"
    by (simp add: is_title_card_def)
  with assms(3) have "length ?tcs = 1" by simp
  then obtain tc where tcs: "?tcs = [tc]"
    by (cases ?tcs) auto
  then have "tc \<in> set ?tcs" by simp
  then have tc_x: "tc \<in> set xs" and tc_sid: "section_id (h tc) = sid" and tc_ty: "is_title_card h tc"
    by auto
  have sid_in: "sid \<in> (\<lambda>a. section_id (h a)) ` set xs" using tc_x tc_sid by auto
  have rs: "section_assets ?st sid = sort_key ?f (?tcs @ ?sss)"
    using section_assets_assign_timings[OF sid_in, of cs] assms(2)
    by (simp add: section_output_def)
  have tc_not_ss: "tc \<notin> set ?sss"
    using tc_ty by (auto simp: is_title_card_def is_screenshot_def)
  have "distinct (?tcs @ ?sss)"
    unfolding tcs using assms(1) tc_not_ss by simp
  then have dist: "distinct (section_assets ?st sid)"
    by (simp only: rs distinct_sort)
  have "set (section_assets ?st sid) = set (?tcs @ ?sss)"
    by (simp only: rs set_sort)
  then have set_rs: "set (section_assets ?st sid) = insert tc (set ?sss)"
    unfolding tcs by simp
  have w_tc: "?w tc = (s, if ?sss = [] then e else c)"
    using assign_timings_title_card[OF tc_x tc_ty, of cs s e] assms(2) tc_sid
    by (simp add: c_def td_def)
  have w_ss: "?w (?sss ! k) = (c + real k * p, c + (real k + 1) * p)" if "k < n" for k
    using assign_timings_screenshot[OF assms(1,2), of k h] that
    by (simp add: n_def c_def td_def p_def)
  have sorted: "windows_sorted (section_windows ?st sid)"
    unfolding windows_sorted_def section_windows_def rs
    by (simp add: window_def comp_def sorted_sort_key)
  have disjoint: "windows_disjoint (section_windows ?st sid)"
    unfolding section_windows_def
  proof (rule windows_disjoint_map[OF dist])
    fix r r' assume r: "r \<in> set (section_assets ?st sid)" and r': "r' \<in> set (section_assets ?st sid)"
      and ne: "r \<noteq> r'"
    have ss_ss: "?I (?sss ! k) \<inter> ?I (?sss ! l) = {}" if "k < n" "l < n" "?sss ! k \<noteq> ?sss ! l" for k l
    proof -
      from that have "k \<noteq> l" by auto
      then show ?thesis using steps_disjoint[of k l c p] w_ss that by simp
    qed
    have tc_ss: "?I tc \<inter> ?I (?sss ! k) = {}" if "k < n" for k
    proof -
      from that have "?sss \<noteq> []" by (auto simp: n_def)
      then show ?thesis using title_step_disjoint[of s c k p] w_tc w_ss[OF that] by simp
    qed
    have split: "x = tc \<or> (\<exists>k<n. x = ?sss ! k)" if "x \<in> set (section_assets ?st sid)" for x
    proof -
      from that have "x = tc \<or> x \<in> set ?sss" by (simp only: set_rs insert_iff)
      then show ?thesis unfolding n_def by (metis in_set_conv_nth)
    qed
    from split[OF r] split[OF r'] consider "r = tc" "r' = tc" | k where "r = tc" "k < n" "r' = ?sss ! k"
      | k where "r' = tc" "k < n" "r = ?sss ! k"
      | k l where "k < n" "l < n" "r = ?sss ! k" "r' = ?sss ! l"
      by blast
    then show "?I r \<inter> ?I r' = {}"
    proof cases
      case 1 with ne show ?thesis by simp
    next
      case 2 then show ?thesis using tc_ss by simp
    next
      case 3 then show ?thesis using tc_ss[of k] by (simp add: Int_commute)
    next
      case 4 then show ?thesis using ss_ss ne by simp
    qed
  qed
  have cover: "windows_cover (section_windows ?st sid) s e"
  proof -
    have "(\<Union>w \<in> set (section_windows ?st sid). {fst w ..< snd w}) = (\<Union>r \<in> set (section_assets ?st sid). ?I r)"
      by (simp add: section_windows_def)
    also have "\<dots> = ?I tc \<union> (\<Union>r \<in> set ?sss. ?I r)"
      unfolding set_rs by simp
    also have "(\<Union>r \<in> set ?sss. ?I r) = (\<Union>k<n. ?I (?sss ! k))"
      unfolding n_def by (rule UN_set_conv_nth)
    also have "\<dots> = (\<Union>k<n. {c + real k * p ..< c + (real k + 1) * p})"
      using w_ss by simp
    also have "?I tc \<union> \<dots> = {s ..< e}"
    proof (cases "n = 0")
      case True
      then have "?sss = []" by (simp add: n_def)
      with True w_tc show ?thesis by simp
    next
      case False
      then have ne: "?sss \<noteq> []" and pos: "0 < n" by (auto simp: n_def)
      have "{s ..< c} \<union> (\<Union>k<n. {c + real k * p ..< c + (real k + 1) * p}) = {s ..< e}"
        using section_cover[OF pos, of s e] by (simp add: c_def td_def p_def)
      with ne w_tc show ?thesis by simp
    qed
    finally show ?thesis by (simp add: windows_cover_def)
  qed
  from sorted disjoint cover show ?thesis by (simp add: windows_tile_def)
qed

subsection \<open>Concrete runs\<close>

lemmas eval_sync = assign_timings_def build_timing_map_def group_by_section_def process_section_def
  heap_of_def new_asset_def new_chunk_def section_windows_def section_assets_def window_def Let_def
  enumerate_eq_zip

lemma cx1: "section_windows (assign_timings [new_chunk ''s1'' [] [] 40 0] [0]
           (heap_of [new_asset ''s1'' ''screenshot'' []])) ''s1'' = [(3, 40)]"
  by (simp add: eval_sync)

lemma cx2: "section_windows (assign_timings [new_chunk ''s1'' [] [] 40 0] [0, 1]
           (heap_of [new_asset ''s1'' ''title_card'' [], new_asset ''s1'' ''title_card'' []])) ''s1''
         = [(0, 40), (0, 40)]"
  by (simp add: eval_sync)

lemma windows_disjoint_first_two:
  assumes "windows_disjoint (w1 # w2 # ws)"
  shows "{fst w1 ..< snd w1} \<inter> {fst w2 ..< snd w2} = {}"
proof -
  from assms have "{fst ((w1 # w2 # ws) ! 0) ..< snd ((w1 # w2 # ws) ! 0)} \<inter>
                   {fst ((w1 # w2 # ws) ! 1) ..< snd ((w1 # w2 # ws) ! 1)} = {}"
    unfolding windows_disjoint_def by (metis length_Cons zero_less_Suc Suc_less_eq One_nat_def zero_neq_one)
  then show ?thesis by simp
qed

text \<open>
  C1, as stated, fails for two of the shapes it names. A section (0 s to 40 s) with one
  screenshot and no title card: the screenshot is shown from 3 s, the first three seconds
  are not covered. A section with two title cards and no screenshot: both cards get the
  window from 0 s to 40 s, which overlap.
\<close>

theorem section_tiling_counterexample:
  "\<not> windows_tile
       (section_windows (assign_timings [new_chunk ''s1'' [] [] 40 0] [0]
           (heap_of [new_asset ''s1'' ''screenshot'' []])) ''s1'') 0 40 \<and>
   \<not> windows_tile
       (section_windows (assign_timings [new_chunk ''s1'' [] [] 40 0] [0, 1]
           (heap_of [new_asset ''s1'' ''title_card'' [], new_asset ''s1'' ''title_card'' []])) ''s1'')
       0 40"
proof
  have "(0::real) \<in> {0 ..< 40}" by simp
  moreover have "(0::real) \<notin> {3 ..< 40}" by simp
  ultimately have "{3 ..< 40} \<noteq> {0 ..< (40::real)}" by blast
  then have "\<not> windows_cover [(3, 40)] 0 40" by (simp add: windows_cover_def)
  then show "\<not> windows_tile
       (section_windows (assign_timings [new_chunk ''s1'' [] [] 40 0] [0]
           (heap_of [new_asset ''s1'' ''screenshot'' []])) ''s1'') 0 40"
    unfolding cx1 by (simp add: windows_tile_def)
next
  have "\<not> windows_disjoint [(0, 40), (0, 40)]"
  proof
    assume "windows_disjoint [(0, 40), (0, 40)]"
    then have "{0 ..< 40} \<inter> {0 ..< (40::real)} = {}"
      using windows_disjoint_first_two[of "(0, 40)" "(0, 40)" "[]"] by simp
    then show False by simp
  qed
  then show "\<not> windows_tile
       (section_windows (assign_timings [new_chunk ''s1'' [] [] 40 0] [0, 1]
           (heap_of [new_asset ''s1'' ''title_card'' [], new_asset ''s1'' ''title_card'' []])) ''s1'')
       0 40"
    unfolding cx2 by (simp add: windows_tile_def)
qed

theorem section_windows_tile_witness:
  "windows_tile
     (section_windows (assign_timings [new_chunk ''s1'' [] [] 40 0] [0, 1]
         (heap_of [new_asset ''s1'' ''title_card'' [], new_asset ''s1'' ''screenshot'' []])) ''s1'')
     0 40"
  using section_windows_tile[of "[0, 1]" "[new_chunk ''s1'' [] [] 40 0]" "''s1''" 0 40
          "heap_of [new_asset ''s1'' ''title_card'' [], new_asset ''s1'' ''screenshot'' []]"]
  by (simp add: heap_of_def new_asset_def new_chunk_def build_timing_map_def)

theorem missing_timing_skips_section_witness:
  "WarnNoAudioTiming ''s2'' \<in> set (logged (assign_timings [new_chunk ''s1'' [] [] 40 0] [0, 1]
      (heap_of [new_asset ''s1'' ''title_card'' [], new_asset ''s2'' ''title_card'' []]))) \<and>
   heap (assign_timings [new_chunk ''s1'' [] [] 40 0] [0, 1]
      (heap_of [new_asset ''s1'' ''title_card'' [], new_asset ''s2'' ''title_card'' []])) 1
     = new_asset ''s2'' ''title_card'' [] \<and>
   1 \<notin> set (assigned (assign_timings [new_chunk ''s1'' [] [] 40 0] [0, 1]
      (heap_of [new_asset ''s1'' ''title_card'' [], new_asset ''s2'' ''title_card'' []])))"
proof -
  let ?h = "heap_of [new_asset ''s1'' ''title_card'' [], new_asset ''s2'' ''title_card'' []]"
  have 1: "''s2'' \<notin> AudioChunk.section_id ` set [new_chunk ''s1'' [] [] 40 0]"
    by (simp add: new_chunk_def)
  have 2: "1 \<in> set [0, 1 :: nat]" by simp
  have 3: "section_id (?h 1) = ''s2''" by (simp add: heap_of_def new_asset_def)
  have 4: "?h 1 = new_asset ''s2'' ''title_card'' []" by (simp add: heap_of_def)
  note t = missing_timing_skips_section[where h = "?h" and a = 1 and sid = "''s2''"
               and audio_chunks = "[new_chunk ''s1'' [] [] 40 0]" and visual_assets = "[0, 1]",
             OF 1 2 3]
  from t[THEN conjunct1] t[THEN conjunct2, THEN conjunct1]
       t[THEN conjunct2, THEN conjunct2, THEN conjunct1] 4
  show ?thesis by (simp only: simp_thms)
qed

section \<open>Properties of the motion and sound engines\<close>

subsection \<open>Zoom interpolation\<close>

lemma max_py_int: "max 1 (py_int x) = max 1 \<lfloor>x\<rfloor>"
proof (cases "0 \<le> x")
  case True
  then show ?thesis by (simp add: py_int_def)
next
  case False
  then have "\<lceil>x\<rceil> \<le> 0" and "\<lfloor>x\<rfloor> \<le> 0" by (simp_all add: ceiling_le_iff floor_le_iff)
  with False show ?thesis by (simp add: py_int_def max_def)
qed

lemma slow_push_in_preset:
  "map_of MOTION_PRESETS ''slow_push_in'' = Some slow_push_in_vals"
  by (simp add: MOTION_PRESETS_def slow_push_in_vals_def)

lemma zoom_general:
  "zoom_at (zoom (build_motion_filter eng pre d s)) n =
     (let total_frames = max 1 \<lfloor>d * real_of_int (fps eng)\<rfloor>;
          ze' = zoom_start pre + (zoom_end pre - zoom_start pre) * s
      in if \<bar>ze' - zoom_start pre\<bar> < 0.001 then zoom_start pre
         else zoom_start pre + ((ze' - zoom_start pre) / real_of_int total_frames) * real n)"
  by (simp add: build_motion_filter_def Let_def max_py_int)

lemma zoom_slow_push_in:
  assumes "fps eng = 30"
    and "map_of MOTION_PRESETS ''slow_push_in'' = Some p"
  shows "zoompan_d (build_motion_filter eng p 3 0.5) = 90"
    and "zoom_at (zoom (build_motion_filter eng p 3 0.5)) 0 = 1.0"
    and "\<bar>zoom_at (zoom (build_motion_filter eng p 3 0.5)) 89 - 1.0396\<bar> < 0.00005"
proof -
  from assms(2) have p: "zoom_start p = 1" "zoom_end p = 1.08"
    by (auto simp: slow_push_in_preset slow_push_in_vals_def)
  have tf: "max 1 (py_int (3 * real_of_int (fps eng))) = 90"
    using assms(1) by (simp add: py_int_def)
  show "zoompan_d (build_motion_filter eng p 3 0.5) = 90"
    using tf by (simp add: build_motion_filter_def Let_def)
  have z: "zoom (build_motion_filter eng p 3 0.5) = ZoomLinear 1 (0.04 / 90)"
    using tf p by (simp add: build_motion_filter_def Let_def)
  show "zoom_at (zoom (build_motion_filter eng p 3 0.5)) 0 = 1.0"
    unfolding z by simp
  show "\<bar>zoom_at (zoom (build_motion_filter eng p 3 0.5)) 89 - 1.0396\<bar> < 0.00005"
    unfolding z by simp
qed

text \<open>
  C4: with \<open>total_frames = max 1 (floor (d * fps))\<close> and the effective end zoom
  \<open>ze' = zs + (ze - zs) * s\<close>, the zoom expression built by \<open>_build_motion_filter\<close> has at
  frame \<open>n\<close> the value \<open>zs\<close> when \<open>|ze' - zs| < 0.001\<close> and \<open>zs + ((ze' - zs) / total_frames) * n\<close>
  otherwise; for \<open>slow_push_in\<close> at intensity 0.5 over 3 s at 30 fps there are 90 frames,
  the zoom at frame 0 is 1.0 and the zoom at frame 89 is 1.0396 up to half a unit of the
  last digit.
\<close>

theorem zoom_interpolation:
  "zoom_at (zoom (build_motion_filter eng pre d s)) n =
     (let total_frames = max 1 \<lfloor>d * real_of_int (fps eng)\<rfloor>;
          ze' = zoom_start pre + (zoom_end pre - zoom_start pre) * s
      in if \<bar>ze' - zoom_start pre\<bar> < 0.001 then zoom_start pre
         else zoom_start pre + ((ze' - zoom_start pre) / real_of_int total_frames) * real n) \<and>
   (fps eng = 30 \<and> map_of MOTION_PRESETS ''slow_push_in'' = Some p \<longrightarrow>
      zoompan_d (build_motion_filter eng p 3 0.5) = 90 \<and>
      zoom_at (zoom (build_motion_filter eng p 3 0.5)) 0 = 1.0 \<and>
      \<bar>zoom_at (zoom (build_motion_filter eng p 3 0.5)) 89 - 1.0396\<bar> < 0.00005)"
  using zoom_general[of eng pre d s n] zoom_slow_push_in[of eng p] by blast

theorem zoom_interpolation_witness:
  "zoompan_d (build_motion_filter
      \<lparr> width = 1920, height = 1080, fps = 30, codec = ''libx264'', preset = ''fast'' \<rparr>
      slow_push_in_vals 3 0.5) = 90 \<and>
   zoom_at (zoom (build_motion_filter
      \<lparr> width = 1920, height = 1080, fps = 30, codec = ''libx264'', preset = ''fast'' \<rparr>
      slow_push_in_vals 3 0.5)) 0 = 1.0 \<and>
   \<bar>zoom_at (zoom (build_motion_filter
      \<lparr> width = 1920, height = 1080, fps = 30, codec = ''libx264'', preset = ''fast'' \<rparr>
      slow_push_in_vals 3 0.5)) 89 - 1.0396\<bar> < 0.00005"
proof -
  let ?eng = "\<lparr> width = 1920, height = 1080, fps = 30, codec = ''libx264'', preset = ''fast'' \<rparr>"
  have h: "fps ?eng = 30 \<and> map_of MOTION_PRESETS ''slow_push_in'' = Some slow_push_in_vals"
    by (simp add: MOTION_PRESETS_def slow_push_in_vals_def)
  from zoom_interpolation[where eng = "?eng" and p = slow_push_in_vals, THEN conjunct2, rule_format, OF h]
  show ?thesis .
qed

subsection \<open>Cached outputs and the motion fallback\<close>

lemma render_cached:
  "output_path \<in> files wd \<Longrightarrow>
   render_animated_clip run eng frame_path output_path duration motion atmosphere intensity wd
     = Inr (output_path, wd)"
  by (simp add: render_animated_clip_def)

lemma render_returns_output_path:
  "\<exists>wd'. render_animated_clip run eng frame_path output_path duration motion atmosphere intensity wd
     = Inr (output_path, wd')"
proof (cases "map_of MOTION_PRESETS motion")
  case None
  then show ?thesis
    by (simp add: render_animated_clip_def Let_def slow_push_in_preset)
next
  case (Some p)
  then show ?thesis
    by (simp add: render_animated_clip_def Let_def)
qed

lemma render_result_path:
  "render_animated_clip run eng frame_path output_path duration motion atmosphere intensity wd
     = Inr (p, wd') \<Longrightarrow> p = output_path"
  using render_returns_output_path[of run eng frame_path output_path duration motion atmosphere intensity wd]
  by auto

lemma generate_sfx_cached:
  "sfx_path eng sfx_name \<in> files wd \<Longrightarrow>
   generate_sfx run eng sfx_name volume_override wd = (Some (sfx_path eng sfx_name), wd)"
  by (simp add: generate_sfx_def)

lemma generate_sfx_result_path:
  "generate_sfx run eng sfx_name volume_override wd = (Some p, wd') \<Longrightarrow> p = sfx_path eng sfx_name"
  by (auto simp: generate_sfx_def Let_def split: if_splits option.splits)

lemma render_unknown_motion:
  assumes "map_of MOTION_PRESETS motion = None"
  shows "render_animated_clip run eng frame_path output_path duration motion atmosphere intensity wd =
         render_animated_clip run eng frame_path output_path duration ''slow_push_in'' atmosphere intensity wd"
  using assms by (simp add: render_animated_clip_def Let_def slow_push_in_preset)

lemma render_slow_push_in_fresh:
  assumes "output_path \<notin> files wd"
    and "cmd = AnimatedClip eng frame_path
                 (build_motion_filter eng slow_push_in_vals duration intensity)
                 (build_atmosphere_filter atmosphere duration intensity) duration output_path"
  shows "render_animated_clip run eng frame_path output_path duration ''slow_push_in'' atmosphere intensity wd =
           (if fst (run cmd (files wd)) \<noteq> 0
            then Inr (output_path,
                   static_fallback run eng frame_path output_path duration
                     (wd\<lparr> files := snd (run cmd (files wd)), calls := calls wd @ [cmd],
                          warnings := warnings wd @ [WarnFfmpegError] \<rparr>))
            else Inr (output_path,
                   wd\<lparr> files := snd (run cmd (files wd)), calls := calls wd @ [cmd] \<rparr>))"
  using assms
  by (simp add: render_animated_clip_def Let_def slow_push_in_preset)

text \<open>
  C10: for a motion name that is not a key of \<open>MOTION_PRESETS\<close> the call behaves in
  every respect as the call with \<open>"slow_push_in"\<close>, which is a key, so the lookup does
  not fail; when the output file does not exist yet, the one command it runs first is the
  animated clip with the motion filter of the \<open>slow_push_in\<close> preset, and when that
  command succeeds nothing is logged and no other command is run.
\<close>

theorem unknown_motion_uses_slow_push_in:
  assumes "map_of MOTION_PRESETS motion = None"
    and "cmd = AnimatedClip eng frame_path
                 (build_motion_filter eng slow_push_in_vals duration intensity)
                 (build_atmosphere_filter atmosphere duration intensity) duration output_path"
  shows "map_of MOTION_PRESETS ''slow_push_in'' = Some slow_push_in_vals \<and>
         render_animated_clip run eng frame_path output_path duration motion atmosphere intensity wd =
           render_animated_clip run eng frame_path output_path duration ''slow_push_in'' atmosphere intensity wd \<and>
         (output_path \<notin> files wd \<longrightarrow>
            render_animated_clip run eng frame_path output_path duration motion atmosphere intensity wd =
              (if fst (run cmd (files wd)) \<noteq> 0
               then Inr (output_path,
                      static_fallback run eng frame_path output_path duration
                        (wd\<lparr> files := snd (run cmd (files wd)), calls := calls wd @ [cmd],
                             warnings := warnings wd @ [WarnFfmpegError] \<rparr>))
               else Inr (output_path,
                      wd\<lparr> files := snd (run cmd (files wd)), calls := calls wd @ [cmd] \<rparr>)))"
  using render_unknown_motion[OF assms(1)] render_slow_push_in_fresh[OF _ assms(2)]
  by (simp add: slow_push_in_preset)

theorem unknown_motion_uses_slow_push_in_witness:
  "render_animated_clip ffmpeg_ok
     \<lparr> width = 1920, height = 1080, fps = 30, codec = ''libx264'', preset = ''fast'' \<rparr>
     ''f.png'' ''c.mp4'' 3 ''spin'' ''none'' 0.5 \<lparr> files = {}, calls = [], warnings = [] \<rparr> =
   render_animated_clip ffmpeg_ok
     \<lparr> width = 1920, height = 1080, fps = 30, codec = ''libx264'', preset = ''fast'' \<rparr>
     ''f.png'' ''c.mp4'' 3 ''slow_push_in'' ''none'' 0.5 \<lparr> files = {}, calls = [], warnings = [] \<rparr>"
proof -
  have 1: "map_of MOTION_PRESETS ''spin'' = None" by (simp add: MOTION_PRESETS_def)
  from unknown_motion_uses_slow_push_in[OF 1 refl, THEN conjunct2, THEN conjunct1]
  show ?thesis .
qed

text \<open>
  C8: when the output file of a stage exists, a further invocation with the same inputs
  leaves the world as it is (no run of the external tool, nothing logged) and returns the
  same file reference as an earlier invocation returned, for animated-clip rendering and
  for SFX cue generation. An earlier \<open>generate_sfx\<close> that returned \<open>None\<close> returned no
  file reference and is not covered.
\<close>

theorem cached_output_is_reused:
  "(render_animated_clip run eng frame_path output_path duration motion atmosphere intensity wd
      = Inr (p, wd') \<and> output_path \<in> files wd'' \<longrightarrow>
    render_animated_clip run eng frame_path output_path duration motion atmosphere intensity wd''
      = Inr (p, wd'')) \<and>
   (generate_sfx run sfx sfx_name volume_override wd = (Some q, wd') \<and>
    sfx_path sfx sfx_name \<in> files wd'' \<longrightarrow>
    generate_sfx run sfx sfx_name volume_override wd'' = (Some q, wd''))"
  using render_result_path[of run eng frame_path output_path duration motion atmosphere intensity wd p wd']
    generate_sfx_result_path[of run sfx sfx_name volume_override wd q wd']
  by (auto simp: render_cached generate_sfx_cached)

lemmas eval_render = render_animated_clip_def MOTION_PRESETS_def build_atmosphere_filter_def
  build_motion_filter_def py_int_def ffmpeg_ok_def Let_def

lemma first_render:
  "render_animated_clip ffmpeg_ok
     \<lparr> width = 1920, height = 1080, fps = 30, codec = ''libx264'', preset = ''fast'' \<rparr>
     ''f.png'' ''c.mp4'' 3 ''slow_push_in'' ''none'' 0.5
     \<lparr> files = {}, calls = [], warnings = [] \<rparr>
   = Inr (''c.mp4'',
       \<lparr> files = {''c.mp4''},
         calls = [AnimatedClip
                    \<lparr> width = 1920, height = 1080, fps = 30, codec = ''libx264'', preset = ''fast'' \<rparr>
                    ''f.png''
                    \<lparr> scale_w = 2196, scale_h = 1236, zoom = ZoomLinear 1 (1 / 2250),
                      pan_x = PanCentred, pan_y = PanCentred, zoompan_d = 90,
                      out_w = 1920, out_h = 1080, out_fps = 30 \<rparr>
                    None 3 ''c.mp4''],
         warnings = [] \<rparr>)"
  by (simp add: eval_render)

lemma first_sfx:
  "generate_sfx ffmpeg_ok
     \<lparr> sfx_dir = ''sfx'', style_volume = 0.06, style_ambient_volume = 0.02,
       sfx_enabled = True, ambient_enabled = True \<rparr>
     ''film_click'' None \<lparr> files = {}, calls = [], warnings = [] \<rparr>
   = (Some ''sfx/film_click.wav'',
      \<lparr> files = {''sfx/film_click.wav''},
        calls = [SfxClip ''anoisesrc=d=0.06:c=white:r=44100:a=0.9,highpass=f=5000,afade=out:st=0.03:d=0.03''
                   0.06 0.06 ''sfx/film_click.wav''],
        warnings = [] \<rparr>)"
  by (simp add: generate_sfx_def SFX_LIBRARY_def sfx_path_def ffmpeg_ok_def Let_def)

theorem cached_output_is_reused_witness:
  "render_animated_clip ffmpeg_ok
     \<lparr> width = 1920, height = 1080, fps = 30, codec = ''libx264'', preset = ''fast'' \<rparr>
     ''f.png'' ''c.mp4'' 3 ''slow_push_in'' ''none'' 0.5
     \<lparr> files = {''c.mp4''},
       calls = [AnimatedClip
                  \<lparr> width = 1920, height = 1080, fps = 30, codec = ''libx264'', preset = ''fast'' \<rparr>
                  ''f.png''
                  \<lparr> scale_w = 2196, scale_h = 1236, zoom = ZoomLinear 1 (1 / 2250),
                    pan_x = PanCentred, pan_y = PanCentred, zoompan_d = 90,
                    out_w = 1920, out_h = 1080, out_fps = 30 \<rparr>
                  None 3 ''c.mp4''],
       warnings = [] \<rparr>
   = Inr (''c.mp4'',
       \<lparr> files = {''c.mp4''},
         calls = [AnimatedClip
                    \<lparr> width = 1920, height = 1080, fps = 30, codec = ''libx264'', preset = ''fast'' \<rparr>
                    ''f.png''
                    \<lparr> scale_w = 2196, scale_h = 1236, zoom = ZoomLinear 1 (1 / 2250),
                      pan_x = PanCentred, pan_y = PanCentred, zoompan_d = 90,
                      out_w = 1920, out_h = 1080, out_fps = 30 \<rparr>
                    None 3 ''c.mp4''],
         warnings = [] \<rparr>) \<and>
   generate_sfx ffmpeg_ok
     \<lparr> sfx_dir = ''sfx'', style_volume = 0.06, style_ambient_volume = 0.02,
       sfx_enabled = True, ambient_enabled = True \<rparr>
     ''film_click'' None
     \<lparr> files = {''sfx/film_click.wav''},
       calls = [SfxClip ''anoisesrc=d=0.06:c=white:r=44100:a=0.9,highpass=f=5000,afade=out:st=0.03:d=0.03''
                  0.06 0.06 ''sfx/film_click.wav''],
       warnings = [] \<rparr>
   = (Some ''sfx/film_click.wav'',
      \<lparr> files = {''sfx/film_click.wav''},
        calls = [SfxClip ''anoisesrc=d=0.06:c=white:r=44100:a=0.9,highpass=f=5000,afade=out:st=0.03:d=0.03''
                   0.06 0.06 ''sfx/film_click.wav''],
        warnings = [] \<rparr>)"
proof -
  let ?w1 = "\<lparr> files = {''c.mp4''},
       calls = [AnimatedClip
                  \<lparr> width = 1920, height = 1080, fps = 30, codec = ''libx264'', preset = ''fast'' \<rparr>
                  ''f.png''
                  \<lparr> scale_w = 2196, scale_h = 1236, zoom = ZoomLinear 1 (1 / 2250),
                    pan_x = PanCentred, pan_y = PanCentred, zoompan_d = 90,
                    out_w = 1920, out_h = 1080, out_fps = 30 \<rparr>
                  None 3 ''c.mp4''],
       warnings = [] \<rparr>"
  let ?v1 = "\<lparr> files = {''sfx/film_click.wav''},
       calls = [SfxClip ''anoisesrc=d=0.06:c=white:r=44100:a=0.9,highpass=f=5000,afade=out:st=0.03:d=0.03''
                  0.06 0.06 ''sfx/film_click.wav''],
       warnings = [] \<rparr>"
  let ?sfx = "\<lparr> sfx_dir = ''sfx'', style_volume = 0.06, style_ambient_volume = 0.02,
       sfx_enabled = True, ambient_enabled = True \<rparr>"
  have a: "''c.mp4'' \<in> files ?w1" by simp
  have b: "sfx_path ?sfx ''film_click'' \<in> files ?v1" by (simp add: sfx_path_def)
  from cached_output_is_reused[where wd' = "?w1" and wd'' = "?w1", THEN conjunct1, rule_format,
         OF conjI, OF first_render a]
       cached_output_is_reused[where wd' = "?v1" and wd'' = "?v1", THEN conjunct2, rule_format,
         OF conjI, OF first_sfx b]
  show ?thesis by (rule conjI)
qed

end
